theory Spec2Isabelle
  imports Main "HOL-Library.Multiset"
begin

section \<open>The module graph sorter of \<^verbatim>\<open>Rig\<close> (core/rig.py)\<close>

text \<open>
  A module is a wrapper object around one scene node; two wrappers of the same node are
  the same module (\<^verbatim>\<open>in\<close> and \<^verbatim>\<open>list.remove\<close> compare them), so the
  model identifies a module with the name of its node.  The \<^verbatim>\<open>parent_module\<close>
  property of a module is a weak reference to another module's node: a partial map
  from node names to node names.
\<close>

type_synonym node = string

text \<open>
  \<^verbatim>\<open>sort_parent_module(module, modules, sorted_modules)\<close>: both lists are mutated
  in place by the Python method; the model returns the pair of them.
  \<^verbatim>\<open>modules.remove(x)\<close> deletes the first occurrence, as \<^const>\<open>remove1\<close> does.
\<close>

function sort_parent_module ::
  "(node \<rightharpoonup> node) \<Rightarrow> node \<Rightarrow> node list \<Rightarrow> node list \<Rightarrow> node list \<times> node list" where
  "sort_parent_module pm module modules sorted_modules =
     (case pm module of
        None \<Rightarrow> (modules, sorted_modules @ [module])
      | Some parent_module \<Rightarrow>
          if parent_module \<in> set modules
          then (case sort_parent_module pm parent_module (remove1 parent_module modules) sorted_modules of
                  (modules', sorted') \<Rightarrow> (modules', sorted' @ [module]))
          else (modules, sorted_modules @ [module]))"
  by pat_completeness auto
termination
  by (relation "measure (\<lambda>(pm, m, modules, sorted_modules). length modules)")
     (auto simp: length_remove1 dest!: length_pos_if_in_set)

lemma sort_parent_module_length:
  "length (fst (sort_parent_module pm m modules sorted_modules)) \<le> length modules"
proof (induction pm m modules sorted_modules rule: sort_parent_module.induct)
  case (1 pm m modules sorted_modules)
  show ?case
  proof (cases "pm m")
    case None
    then show ?thesis by simp
  next
    case (Some p)
    show ?thesis
    proof (cases "p \<in> set modules")
      case True
      from "1.IH" [OF Some True]
      have "length (fst (sort_parent_module pm p (remove1 p modules) sorted_modules))
              \<le> length (remove1 p modules)" .
      also have "\<dots> \<le> length modules" by (simp add: length_remove1)
      finally show ?thesis using Some True by (simp add: case_prod_unfold)
    next
      case False
      with Some show ?thesis by simp
    qed
  qed
qed

text \<open>
  The \<^verbatim>\<open>while modules:\<close> loop of \<^verbatim>\<open>rig_modules\<close>: \<^verbatim>\<open>modules.pop()\<close> takes
  the last element of the working list.
\<close>

function sort_modules_loop :: "(node \<rightharpoonup> node) \<Rightarrow> node list \<Rightarrow> node list \<Rightarrow> node list" where
  "sort_modules_loop pm modules sorted_modules =
     (if modules = [] then sorted_modules
      else (case sort_parent_module pm (last modules) (butlast modules) sorted_modules of
              (modules', sorted') \<Rightarrow> sort_modules_loop pm modules' sorted'))"
  by pat_completeness auto
termination
proof (relation "measure (\<lambda>(pm, modules, sorted_modules). length modules)")
  show "wf (measure (\<lambda>(pm, modules, sorted_modules). length modules))" by simp
next
  fix pm :: "node \<rightharpoonup> node" and modules sorted_modules x modules' sorted' :: "node list"
  assume ne: "modules \<noteq> []"
    and x: "(modules', sorted') = sort_parent_module pm (last modules) (butlast modules) sorted_modules"
  have "length (fst (sort_parent_module pm (last modules) (butlast modules) sorted_modules))
          \<le> length (butlast modules)"
    by (rule sort_parent_module_length)
  with x [symmetric] have "length modules' \<le> length (butlast modules)" by simp
  with ne have "length modules' < length modules" by (cases modules rule: rev_cases) auto
  then show "((pm, modules', sorted'), (pm, modules, sorted_modules))
               \<in> measure (\<lambda>(pm, modules, sorted_modules). length modules)" by simp
qed

declare sort_parent_module.simps [simp del]

declare sort_modules_loop.simps [simp del]

definition sort_modules :: "(node \<rightharpoonup> node) \<Rightarrow> node list \<Rightarrow> node list" where
  "sort_modules pm modules = sort_modules_loop pm modules []"

text \<open>
  The parent relation among the modules of a set \<open>S\<close>, and "\<open>a\<close> stands strictly
  before \<open>b\<close> in the sequence" (\<open>b\<close> occurs after the first occurrence of \<open>a\<close>).
\<close>

definition parent_rel :: "node set \<Rightarrow> (node \<rightharpoonup> node) \<Rightarrow> (node \<times> node) set" where
  "parent_rel S pm = {(m, p). m \<in> S \<and> p \<in> S \<and> pm m = Some p}"

definition precedes :: "'a \<Rightarrow> 'a \<Rightarrow> 'a list \<Rightarrow> bool" where
  "precedes a b xs = (b \<in> set (drop 1 (dropWhile (\<lambda>x. x \<noteq> a) xs)))"

section \<open>The scene and the collaborators of the rig\<close>

text \<open>
  The scene-graph host is modelled by the observations \<^verbatim>\<open>Rig\<close> makes of it: the
  list of all nodes (\<^verbatim>\<open>cmds.ls('*')\<close>), the DAG parent of a node, and the
  attributes the rig reads and writes, one field per attribute, keyed by the node that
  carries it.  \<open>is_build_node\<close> is the set of nodes on which the marker attribute
  exists.  \<open>incoming\<close> maps a destination plug to the plug that drives it.  Host calls
  are taken to succeed; the exceptions of the model are those of the Python code itself.
  \<open>logged\<close> keeps the warning and error records sent to the logger.
\<close>

datatype py_error = RuntimeError | ValueError | KeyError | TypeError | AttributeError

datatype json =
  JNull | JBool bool | JNum int | JStr string | JArr "json list" | JObj "(string \<times> json) list"

record scene =
  ls :: "node list"
  dag_parent :: "node \<rightharpoonup> node"
  is_build_node :: "node set"
  modules_group :: node
  skeleton_group :: node
  module_type :: "node \<Rightarrow> string"
  parent_module :: "node \<rightharpoonup> node"
  deform_joints :: "node \<Rightarrow> node list"
  parent_joint :: "node \<rightharpoonup> node"
  controllers :: "node \<Rightarrow> node list"
  placement_group :: "node \<Rightarrow> node"
  is_built :: "node \<Rightarrow> bool"
  visibility :: "node \<Rightarrow> bool"
  shape_data :: "node \<rightharpoonup> string"
  attributes_state :: "node \<rightharpoonup> string"
  parent_space_data :: "node \<rightharpoonup> string"
  incoming :: "node \<times> string \<rightharpoonup> string"
  logged :: "(string \<times> string) list"

record module_args =
  args :: "string list"
  kwargs :: "string \<rightharpoonup> string"

text \<open>
  The services the rig calls and whose code is not part of \<^verbatim>\<open>rig.py\<close>: the hook
  runner, the module implementations (\<^verbatim>\<open>_build\<close>, \<^verbatim>\<open>update\<close>, the constructors of
  the registry \<^verbatim>\<open>all_rig_modules\<close>), the attribute-state and shape services, the
  space-switching builder, \<^verbatim>\<open>reset_node\<close> and the JSON codec.  They are parameters
  of the model.  \<^verbatim>\<open>get_shape_data\<close> may fail (the caller has a \<^verbatim>\<open>try\<close> around
  it) and \<^verbatim>\<open>json.loads\<close> raises \<^verbatim>\<open>ValueError\<close> on a text that is not JSON.
\<close>

record collab =
  run_scripts :: "string \<Rightarrow> scene \<Rightarrow> scene"
  all_rig_modules :: "string \<rightharpoonup> (module_args \<Rightarrow> scene \<Rightarrow> node \<times> scene)"
  module_build :: "node \<Rightarrow> scene \<Rightarrow> scene"
  module_update :: "node \<Rightarrow> scene \<Rightarrow> scene"
  set_attributes_state :: "node \<Rightarrow> json \<Rightarrow> scene \<Rightarrow> scene"
  get_attributes_state :: "node \<Rightarrow> scene \<Rightarrow> json"
  get_shape_data :: "node \<Rightarrow> scene \<Rightarrow> py_error + json"
  create_space_switching :: "node \<Rightarrow> json \<Rightarrow> json \<Rightarrow> scene \<Rightarrow> scene"
  reset_node :: "node \<Rightarrow> scene \<Rightarrow> scene"
  json_loads :: "string \<Rightarrow> py_error + json"
  json_dumps :: "json \<Rightarrow> string"

definition RIG :: node where
  "RIG = ''RIG''"

subsection \<open>Host queries and commands\<close>

text \<open>\<^verbatim>\<open>cmds.listRelatives(g)\<close>: the children of \<open>g\<close>; Python gets \<^verbatim>\<open>None\<close> when
  there is none, which the callers below handle each in its own way.\<close>

definition listRelatives :: "scene \<Rightarrow> node \<Rightarrow> node list" where
  "listRelatives s g = filter (\<lambda>n. dag_parent s n = Some g) (ls s)"

text \<open>\<open>below k par a n\<close>: \<open>a\<close> is reached from \<open>n\<close> in at least one and at most \<open>k\<close>
  steps to the parent.\<close>

fun below :: "nat \<Rightarrow> (node \<rightharpoonup> node) \<Rightarrow> node \<Rightarrow> node \<Rightarrow> bool" where
  "below 0 par a n = False"
| "below (Suc k) par a n = (case par n of None \<Rightarrow> False | Some p \<Rightarrow> p = a \<or> below k par a p)"

definition descendant :: "scene \<Rightarrow> node \<Rightarrow> node \<Rightarrow> bool" where
  "descendant s a n = below (length (ls s)) (dag_parent s) a n"

definition listRelatives_allDescendents :: "scene \<Rightarrow> node \<Rightarrow> node list" where
  "listRelatives_allDescendents s g = filter (descendant s g) (ls s)"

text \<open>\<^verbatim>\<open>cmds.delete(nodes)\<close> removes the nodes and, as the host does for DAG nodes,
  everything below them; the marker attribute goes with its node.\<close>

definition doomed :: "scene \<Rightarrow> node list \<Rightarrow> node \<Rightarrow> bool" where
  "doomed s ns n = (n \<in> set ns \<or> (\<exists>a\<in>set ns. descendant s a n))"

definition delete :: "node list \<Rightarrow> scene \<Rightarrow> scene" where
  "delete ns s = s\<lparr>ls := filter (\<lambda>n. \<not> doomed s ns n) (ls s),
                   is_build_node := {n \<in> is_build_node s. \<not> doomed s ns n}\<rparr>"

definition ends_with :: "string \<Rightarrow> string \<Rightarrow> bool" where
  "ends_with suf name = (length suf \<le> length name \<and> drop (length name - length suf) name = suf)"

definition log_record :: "string \<Rightarrow> string \<Rightarrow> scene \<Rightarrow> scene" where
  "log_record level msg s = s\<lparr>logged := logged s @ [(level, msg)]\<rparr>"

text \<open>A \<^verbatim>\<open>for\<close> loop whose body may raise: the first exception ends the loop.\<close>

fun for_each :: "('a \<Rightarrow> scene \<Rightarrow> py_error + scene) \<Rightarrow> 'a list \<Rightarrow> scene \<Rightarrow> py_error + scene" where
  "for_each body [] s = Inr s"
| "for_each body (x # xs) s =
     (case body x s of Inl e \<Rightarrow> Inl e | Inr s' \<Rightarrow> for_each body xs s')"

subsection \<open>JSON values as Python sees them\<close>

text \<open>\<^verbatim>\<open>hasattr(spaces, 'get')\<close> holds of a decoded object (an \<^verbatim>\<open>OrderedDict\<close>) only;
  \<^verbatim>\<open>d.get(k, default)\<close> reads the last pair of that key; \<open>truthy\<close> is Python's truth
  value of a decoded value.\<close>

fun has_get :: "json \<Rightarrow> bool" where
  "has_get (JObj kvs) = True"
| "has_get j = False"

definition dict_get :: "(string \<times> json) list \<Rightarrow> string \<Rightarrow> json \<Rightarrow> json" where
  "dict_get kvs k dflt = (case map_of (rev kvs) k of None \<Rightarrow> dflt | Some v \<Rightarrow> v)"

fun truthy :: "json \<Rightarrow> bool" where
  "truthy JNull = False"
| "truthy (JBool b) = b"
| "truthy (JNum n) = (n \<noteq> 0)"
| "truthy (JStr t) = (t \<noteq> [])"
| "truthy (JArr xs) = (xs \<noteq> [])"
| "truthy (JObj kvs) = (kvs \<noteq> [])"

section \<open>The operations of \<^verbatim>\<open>Rig\<close>\<close>

subsection \<open>\<^verbatim>\<open>rig_modules\<close>, \<^verbatim>\<open>skeleton\<close>, \<^verbatim>\<open>build_nodes\<close>\<close>

text \<open>Each child of the modules group is wrapped in the class registered for its
  \<^verbatim>\<open>module_type\<close>; an unregistered type is a \<^verbatim>\<open>KeyError\<close>.  Wrapping an existing
  node only reads it.\<close>

fun wrap_modules :: "collab \<Rightarrow> scene \<Rightarrow> node list \<Rightarrow> py_error + node list" where
  "wrap_modules c s [] = Inr []"
| "wrap_modules c s (n # ns) =
     (case all_rig_modules c (module_type s n) of
        None \<Rightarrow> Inl KeyError
      | Some cls \<Rightarrow> (case wrap_modules c s ns of Inl e \<Rightarrow> Inl e | Inr ms \<Rightarrow> Inr (n # ms)))"

definition rig_modules :: "collab \<Rightarrow> scene \<Rightarrow> py_error + node list" where
  "rig_modules c s =
     (case wrap_modules c s (listRelatives s (modules_group s)) of
        Inl e \<Rightarrow> Inl e
      | Inr modules \<Rightarrow> Inr (sort_modules (parent_module s) modules))"

text \<open>\<^verbatim>\<open>list(reversed(cmds.listRelatives(group, allDescendents=True)))\<close>: with no
  descendant the host returns \<^verbatim>\<open>None\<close> and \<^verbatim>\<open>reversed(None)\<close> is a
  \<^verbatim>\<open>TypeError\<close> (there is no \<^verbatim>\<open>or []\<close> here).\<close>

definition skeleton :: "scene \<Rightarrow> py_error + node list" where
  "skeleton s =
     (case listRelatives_allDescendents s (skeleton_group s) of
        [] \<Rightarrow> Inl TypeError
      | d # ds \<Rightarrow> Inr (rev (d # ds)))"

definition build_nodes :: "scene \<Rightarrow> node list" where
  "build_nodes s = filter (\<lambda>node. node \<in> is_build_node s) (ls s)"

subsection \<open>\<^verbatim>\<open>add_module\<close>, \<^verbatim>\<open>get_module\<close>, \<^verbatim>\<open>delete_module\<close>\<close>

definition add_module :: "collab \<Rightarrow> string \<Rightarrow> module_args \<Rightarrow> scene \<Rightarrow> (py_error + node) \<times> scene" where
  "add_module c mtype a s =
     (if is_built s RIG then (Inl RuntimeError, s)
      else (case all_rig_modules c mtype of
              None \<Rightarrow> (Inl ValueError, s)
            | Some cls \<Rightarrow>
                (case cls (a\<lparr>kwargs := (kwargs a)(''rig'' \<mapsto> RIG)\<rparr>) s of
                   (new_module, s') \<Rightarrow> (Inr new_module, s'))))"

definition get_module :: "collab \<Rightarrow> node \<Rightarrow> scene \<Rightarrow> (py_error + node option) \<times> scene" where
  "get_module c module_node_name s =
     (case rig_modules c s of
        Inl e \<Rightarrow> (Inl e, s)
      | Inr modules \<Rightarrow>
          if module_node_name \<in> set modules then (Inr (Some module_node_name), s)
          else (Inr None, log_record ''warning'' (''Found no module named '' @ module_node_name @ ''.'') s))"

definition reparent_module :: "collab \<Rightarrow> node \<Rightarrow> node list \<Rightarrow> node \<Rightarrow> scene \<Rightarrow> scene" where
  "reparent_module c module_to_del deform_jnts m s =
     (case parent_joint s m of
        None \<Rightarrow> s
      | Some j \<Rightarrow>
          if j \<in> set deform_jnts
          then module_update c m (s\<lparr>parent_joint := (parent_joint s)(m := parent_joint s module_to_del)\<rparr>)
          else s)"

definition delete_module :: "collab \<Rightarrow> node \<Rightarrow> scene \<Rightarrow> (py_error + unit) \<times> scene" where
  "delete_module c module_node_name s =
     (if is_built s RIG
      then (Inr (), log_record ''error'' ''Cannot delete a module if the rig is built.'' s)
      else (case get_module c module_node_name s of
              (Inl e, s1) \<Rightarrow> (Inl e, s1)
            | (Inr None, s1) \<Rightarrow> (Inl AttributeError, s1)
            | (Inr (Some module_to_del), s1) \<Rightarrow>
                (case rig_modules c s1 of
                   Inl e \<Rightarrow> (Inl e, s1)
                 | Inr modules \<Rightarrow>
                     (let deform_jnts = deform_joints s1 module_to_del;
                          s2 = fold (reparent_module c module_to_del deform_jnts) modules s1;
                          s3 = delete [module_to_del] s2
                      in (Inr (), delete deform_jnts s3)))))"

subsection \<open>\<^verbatim>\<open>build\<close>\<close>

definition restore_attributes_state :: "collab \<Rightarrow> node \<Rightarrow> scene \<Rightarrow> py_error + scene" where
  "restore_attributes_state c ctl s =
     (case attributes_state s ctl of
        None \<Rightarrow> Inr s
      | Some blob \<Rightarrow>
          if blob = [] then Inr s
          else (case json_loads c blob of
                  Inl e \<Rightarrow> Inl e
                | Inr state \<Rightarrow> Inr (set_attributes_state c ctl state s)))"

definition build_module :: "collab \<Rightarrow> node \<Rightarrow> scene \<Rightarrow> py_error + scene" where
  "build_module c m s =
     (let s1 = module_build c m s in
      case for_each (restore_attributes_state c) (controllers s1 m) s1 of
        Inl e \<Rightarrow> Inl e
      | Inr s2 \<Rightarrow> Inr (s2\<lparr>visibility := (visibility s2)(placement_group s2 m := False)\<rparr>))"

definition restore_parent_spaces :: "collab \<Rightarrow> node \<Rightarrow> scene \<Rightarrow> py_error + scene" where
  "restore_parent_spaces c ctl s =
     (case parent_space_data s ctl of
        None \<Rightarrow> Inr s
      | Some blob \<Rightarrow>
          if blob = [] then Inr s
          else (case json_loads c blob of
                  Inl e \<Rightarrow> Inl e
                | Inr spaces \<Rightarrow>
                    (case spaces of
                       JObj kvs \<Rightarrow>
                         (let parents = dict_get kvs ''parents'' (JArr []);
                              space_type = dict_get kvs ''space_type'' (JStr ''parent'')
                          in if truthy parents
                             then Inr (create_space_switching c ctl parents space_type s)
                             else Inr s)
                     | _ \<Rightarrow> Inr s)))"

definition module_parent_spaces :: "collab \<Rightarrow> node \<Rightarrow> scene \<Rightarrow> py_error + scene" where
  "module_parent_spaces c m s = for_each (restore_parent_spaces c) (controllers s m) s"

definition tag_nodes_for_unbuild :: "node list \<Rightarrow> scene \<Rightarrow> scene" where
  "tag_nodes_for_unbuild nodes s =
     fold (\<lambda>node s'. s'\<lparr>is_build_node := insert node (is_build_node s')\<rparr>) nodes s"

text \<open>The first half of \<^verbatim>\<open>build\<close>: the hooks, the snapshot, the per-module pass.
  It returns the scene after the pass and the list
  \<^verbatim>\<open>list(nodes_after_build - nodes_before_build)\<close>.\<close>

definition build_pass :: "collab \<Rightarrow> scene \<Rightarrow> py_error + (scene \<times> node list)" where
  "build_pass c s =
     (let s0 = run_scripts c ''pre_build'' s;
          nodes_before_build = set (ls s0)
      in case rig_modules c s0 of
           Inl e \<Rightarrow> Inl e
         | Inr modules \<Rightarrow>
             (case for_each (build_module c) modules s0 of
                Inl e \<Rightarrow> Inl e
              | Inr s1 \<Rightarrow> Inr (s1, filter (\<lambda>n. n \<notin> nodes_before_build) (remdups (ls s1)))))"

definition build :: "collab \<Rightarrow> scene \<Rightarrow> py_error + scene" where
  "build c s =
     (case build_pass c s of
        Inl e \<Rightarrow> Inl e
      | Inr (s1, build_nds) \<Rightarrow>
          (case rig_modules c s1 of
             Inl e \<Rightarrow> Inl e
           | Inr modules \<Rightarrow>
               (case for_each (module_parent_spaces c) modules s1 of
                  Inl e \<Rightarrow> Inl e
                | Inr s2 \<Rightarrow>
                    (let s3 = run_scripts c ''post_build'' s2;
                         s4 = tag_nodes_for_unbuild build_nds s3
                     in Inr (s4\<lparr>is_built := (is_built s4)(RIG := True)\<rparr>)))))"

subsection \<open>\<^verbatim>\<open>reset_pose\<close> and \<^verbatim>\<open>unbuild\<close>\<close>

definition reset_pose :: "collab \<Rightarrow> scene \<Rightarrow> scene" where
  "reset_pose c s = fold (reset_node c) (filter (ends_with ''_ctl'') (ls s)) s"

text \<open>The body of the controller loop: the shape capture is inside
  \<^verbatim>\<open>try: ... except: pass\<close>, the attribute-state capture is not.\<close>

definition capture_controller :: "collab \<Rightarrow> node \<Rightarrow> scene \<Rightarrow> scene" where
  "capture_controller c ctl s =
     (let s1 = (case get_shape_data c ctl s of
                  Inl e \<Rightarrow> s
                | Inr data \<Rightarrow> s\<lparr>shape_data := (shape_data s)(ctl \<mapsto> json_dumps c data)\<rparr>)
      in s1\<lparr>attributes_state :=
              (attributes_state s1)(ctl \<mapsto> json_dumps c (get_attributes_state c ctl s1))\<rparr>)"

definition unbuild_module :: "collab \<Rightarrow> node \<Rightarrow> scene \<Rightarrow> scene" where
  "unbuild_module c m s =
     (let s1 = fold (capture_controller c) (controllers s m) s
      in s1\<lparr>visibility := (visibility s1)(placement_group s1 m := True)\<rparr>)"

definition disconnect_joint :: "node \<Rightarrow> scene \<Rightarrow> scene" where
  "disconnect_joint jnt s =
     fold (\<lambda>attribute s'. s'\<lparr>incoming := (incoming s')((jnt, attribute) := None)\<rparr>)
       [''.translate'', ''.rotate'', ''.scale''] s"

definition reset_is_built :: "node \<Rightarrow> scene \<Rightarrow> scene" where
  "reset_is_built n s = s\<lparr>is_built := (is_built s)(n := False)\<rparr>"

definition unbuild :: "collab \<Rightarrow> scene \<Rightarrow> py_error + scene" where
  "unbuild c s =
     (let s1 = reset_pose c (run_scripts c ''pre_unbuild'' s)
      in case rig_modules c s1 of
           Inl e \<Rightarrow> Inl e
         | Inr modules \<Rightarrow>
             (let s2 = fold (unbuild_module c) modules s1
              in case skeleton s2 of
                   Inl e \<Rightarrow> Inl e
                 | Inr joints \<Rightarrow>
                     (let s3 = fold disconnect_joint joints s2;
                          s4 = delete (build_nodes s3) s3
                      in case rig_modules c s4 of
                           Inl e \<Rightarrow> Inl e
                         | Inr modules' \<Rightarrow>
                             Inr (run_scripts c ''post_unbuild''
                                    (reset_is_built RIG (fold reset_is_built modules' s4))))))"

section \<open>What a collaborator leaves alone\<close>

text \<open>
  The hooks, the module routines and the services are arbitrary code.  What the rig
  needs of them is stated by the following predicates: a step \<open>keeps_nodes\<close> when it
  creates and deletes no node, re-parents none and touches no marker; it \<open>keeps_rig\<close>
  when it leaves the groups, the module attributes, the flags and the visibilities as
  they are; a build routine \<open>adds_only\<close> when every node it finds is still there
  afterwards, under the same parent, and no marker has changed.
\<close>

definition nodes_view :: "scene \<Rightarrow> node list \<times> (node \<rightharpoonup> node) \<times> node set" where
  "nodes_view s = (ls s, dag_parent s, is_build_node s)"

definition rig_view ::
  "scene \<Rightarrow> node \<times> node \<times> (node \<Rightarrow> string) \<times> (node \<rightharpoonup> node) \<times> (node \<Rightarrow> node) \<times> (node \<Rightarrow> bool) \<times> (node \<Rightarrow> bool)" where
  "rig_view s = (modules_group s, skeleton_group s, module_type s, parent_module s,
                 placement_group s, is_built s, visibility s)"

definition keeps_nodes :: "(scene \<Rightarrow> scene) \<Rightarrow> bool" where
  "keeps_nodes f = (\<forall>s. nodes_view (f s) = nodes_view s)"

definition keeps_rig :: "(scene \<Rightarrow> scene) \<Rightarrow> bool" where
  "keeps_rig f = (\<forall>s. rig_view (f s) = rig_view s)"

definition extends :: "scene \<Rightarrow> scene \<Rightarrow> bool" where
  "extends s s' = (set (ls s) \<subseteq> set (ls s') \<and>
                   (\<forall>n\<in>set (ls s). dag_parent s' n = dag_parent s n) \<and>
                   is_build_node s' = is_build_node s)"

definition adds_only :: "(scene \<Rightarrow> scene) \<Rightarrow> bool" where
  "adds_only f = (\<forall>s. extends s (f s))"

text \<open>The parent of every node of the scene is a node of the scene.\<close>

definition closed_hierarchy :: "scene \<Rightarrow> bool" where
  "closed_hierarchy s = (\<forall>n\<in>set (ls s). \<forall>p. dag_parent s n = Some p \<longrightarrow> p \<in> set (ls s))"


section \<open>Example rigs\<close>

text \<open>A three-module chain \<open>A \<leftarrow> B \<leftarrow> C\<close> and a two-module cycle.\<close>

definition chain3 :: "node \<rightharpoonup> node" where
  "chain3 = [''B'' \<mapsto> ''A'', ''C'' \<mapsto> ''B'']"

definition cycle2 :: "node \<rightharpoonup> node" where
  "cycle2 = [''A'' \<mapsto> ''B'', ''B'' \<mapsto> ''A'']"

text \<open>A scene with the three groups and nothing else.\<close>

definition empty_scene :: scene where
  "empty_scene =
     \<lparr>ls = [''RIG'', ''MODULES'', ''EXTRAS'', ''SKELETON''],
      dag_parent = [''MODULES'' \<mapsto> ''RIG'', ''EXTRAS'' \<mapsto> ''RIG'', ''SKELETON'' \<mapsto> ''RIG''],
      is_build_node = {},
      modules_group = ''MODULES'',
      skeleton_group = ''SKELETON'',
      module_type = (\<lambda>n. []),
      parent_module = Map.empty,
      deform_joints = (\<lambda>n. []),
      parent_joint = Map.empty,
      controllers = (\<lambda>n. []),
      placement_group = (\<lambda>n. []),
      is_built = (\<lambda>n. False),
      visibility = (\<lambda>n. True),
      shape_data = Map.empty,
      attributes_state = Map.empty,
      parent_space_data = Map.empty,
      incoming = Map.empty,
      logged = []\<rparr>"

text \<open>A module class for the examples: its constructor makes one node under the
  modules group, named by the first positional argument; its build routine makes one
  driver node and raises the module's \<^verbatim>\<open>is_built\<close> flag.\<close>

definition limb_class :: "module_args \<Rightarrow> scene \<Rightarrow> node \<times> scene" where
  "limb_class a s =
     (let name = (case args a of [] \<Rightarrow> ''limb'' | n # rest \<Rightarrow> n)
      in (name, s\<lparr>ls := ls s @ [name],
                   dag_parent := (dag_parent s)(name \<mapsto> modules_group s),
                   module_type := (module_type s)(name := ''limb'')\<rparr>))"

definition limb_build :: "node \<Rightarrow> scene \<Rightarrow> scene" where
  "limb_build m s = s\<lparr>ls := ls s @ [m @ ''_drv''], is_built := (is_built s)(m := True)\<rparr>"

definition record_space :: "node \<Rightarrow> json \<Rightarrow> json \<Rightarrow> scene \<Rightarrow> scene" where
  "record_space ctl parents space_type s =
     s\<lparr>incoming := (incoming s)((ctl, ''.space'') \<mapsto> ''switch'')\<rparr>"

definition toy_loads :: "string \<Rightarrow> py_error + json" where
  \<open>toy_loads text =
     (if text = ''{"parents": ["S_ctl"], "space_type": "parent"}''
      then Inr (JObj [(''parents'', JArr [JStr ''S_ctl'']), (''space_type'', JStr ''parent'')])
      else if text = ''["S_ctl"]'' then Inr (JArr [JStr ''S_ctl''])
      else if text = ''{}'' then Inr (JObj [])
      else if text = ''null'' then Inr JNull
      else Inl ValueError)\<close>

definition toy_dumps :: "json \<Rightarrow> string" where
  "toy_dumps j = (if j = JObj [] then ''{}'' else ''null'')"

definition demo :: collab where
  "demo =
     \<lparr>run_scripts = (\<lambda>phase s. s),
      all_rig_modules = [''limb'' \<mapsto> limb_class],
      module_build = limb_build,
      module_update = (\<lambda>m s. s),
      set_attributes_state = (\<lambda>ctl state s. s),
      get_attributes_state = (\<lambda>ctl s. JObj []),
      get_shape_data = (\<lambda>ctl s. Inr JNull),
      create_space_switching = record_space,
      reset_node = (\<lambda>n s. s),
      json_loads = toy_loads,
      json_dumps = toy_dumps\<rparr>"

definition cycle_scene :: scene where
  "cycle_scene =
     empty_scene\<lparr>ls := ls empty_scene @ [''A'', ''B''],
                 dag_parent := (dag_parent empty_scene)(''A'' \<mapsto> ''MODULES'', ''B'' \<mapsto> ''MODULES''),
                 module_type := (\<lambda>n. ''limb''),
                 parent_module := cycle2\<rparr>"

text \<open>A rig that is built, for the guards of the module operations.\<close>

definition built_scene :: scene where
  "built_scene = empty_scene\<lparr>is_built := (is_built empty_scene)(RIG := True)\<rparr>"

definition spine_args :: module_args where
  "spine_args = \<lparr>args = [''S''], kwargs = Map.empty\<rparr>"

text \<open>A spine \<open>S\<close> and an arm \<open>A\<close> parented to it, each with one deform joint, one
  controller and a placement group; the arm's controller has a stored parent space.\<close>

definition rig_scene :: scene where
  \<open>rig_scene =
     empty_scene\<lparr>
       ls := ls empty_scene @ [''S'', ''A'', ''Sj'', ''Aj'', ''S_ctl'', ''A_ctl'', ''Sp'', ''Ap''],
       dag_parent := (dag_parent empty_scene)
          (''S'' \<mapsto> ''MODULES'', ''A'' \<mapsto> ''MODULES'', ''Sj'' \<mapsto> ''SKELETON'', ''Aj'' \<mapsto> ''Sj'',
           ''S_ctl'' \<mapsto> ''S'', ''A_ctl'' \<mapsto> ''A'', ''Sp'' \<mapsto> ''S'', ''Ap'' \<mapsto> ''A''),
       module_type := (\<lambda>n. ''limb''),
       parent_module := [''A'' \<mapsto> ''S''],
       deform_joints := (\<lambda>m. if m = ''S'' then [''Sj''] else if m = ''A'' then [''Aj''] else []),
       parent_joint := [''A'' \<mapsto> ''Sj''],
       controllers := (\<lambda>m. if m = ''S'' then [''S_ctl''] else if m = ''A'' then [''A_ctl''] else []),
       placement_group := (\<lambda>m. if m = ''S'' then ''Sp'' else ''Ap''),
       parent_space_data := [''A_ctl'' \<mapsto> ''{"parents": ["S_ctl"], "space_type": "parent"}'']\<rparr>\<close>

text \<open>The same rig, where the spine's controller carries a text that is not JSON.\<close>

definition bad_scene :: scene where
  "bad_scene = rig_scene\<lparr>parent_space_data := (parent_space_data rig_scene)(''S_ctl'' \<mapsto> ''{bad json'')\<rparr>"

definition built_rig :: scene where
  "built_rig = projr (build demo rig_scene)"



text \<open>Two variants of the collaborators: a \<^verbatim>\<open>post_build\<close> hook that creates a
  node, and a space-switching builder that creates one node per controller.\<close>

definition hooked :: collab where
  "hooked = demo\<lparr>run_scripts :=
     (\<lambda>phase s. if phase = ''post_build'' then s\<lparr>ls := ls s @ [''hook_node'']\<rparr> else s)\<rparr>"

definition switching :: collab where
  "switching = demo\<lparr>create_space_switching :=
     (\<lambda>ctl parents space_type s. s\<lparr>ls := ls s @ [ctl @ ''_space'']\<rparr>)\<rparr>"

definition hooked_rig :: scene where
  "hooked_rig = projr (build hooked rig_scene)"

definition switching_rig :: scene where
  "switching_rig = projr (build switching rig_scene)"

text \<open>A module class whose build routine makes a group under the module's node and
  puts the module's controller, an authoring node, under that group.\<close>

definition group_build :: "node \<Rightarrow> scene \<Rightarrow> scene" where
  "group_build m s =
     s\<lparr>ls := ls s @ [m @ ''_grp''],
       dag_parent := (dag_parent s)(m @ ''_grp'' \<mapsto> m, m @ ''_ctl'' \<mapsto> m @ ''_grp''),
       is_built := (is_built s)(m := True)\<rparr>"

definition grouping :: collab where
  "grouping = demo\<lparr>module_build := group_build\<rparr>"

definition grouped_rig :: scene where
  "grouped_rig = projr (build grouping rig_scene)"

text \<open>A \<^verbatim>\<open>post_unbuild\<close> hook that raises the rig's flag again.\<close>

definition flagging :: collab where
  "flagging = demo\<lparr>run_scripts :=
     (\<lambda>phase s. if phase = ''post_unbuild'' then s\<lparr>is_built := (is_built s)(RIG := True)\<rparr> else s)\<rparr>"

text \<open>The example rig with the spine's placement group hidden and the transforms of
  the two joints driven by connections, both before the build.\<close>

definition hidden_scene :: scene where
  "hidden_scene =
     rig_scene\<lparr>visibility := (visibility rig_scene)(''Sp'' := False),
               incoming := (\<lambda>(n, a). if n \<in> {''Sj'', ''Aj''} \<and> a \<in> {''.translate'', ''.rotate'', ''.scale''}
                                     then Some ''driver.output'' else None)\<rparr>"

definition hidden_rig :: scene where
  "hidden_rig = projr (build demo hidden_scene)"

section \<open>The sorter: permutation and parents first\<close>

definition anc_first :: "(node \<times> node) set \<Rightarrow> node list \<Rightarrow> bool" where
  "anc_first R xs = (\<forall>x\<in>set xs. \<forall>a. (x, a) \<in> R\<^sup>+ \<longrightarrow> precedes a x xs)"

lemma precedes_in_set: "precedes a b xs \<Longrightarrow> a \<in> set xs"
  unfolding precedes_def
  by (induction xs) (auto split: if_splits)

lemma precedes_append: "precedes a b xs \<Longrightarrow> precedes a b (xs @ ys)"
proof -
  assume p: "precedes a b xs"
  then have "a \<in> set xs" by (rule precedes_in_set)
  then have "dropWhile (\<lambda>x. x \<noteq> a) (xs @ ys) = dropWhile (\<lambda>x. x \<noteq> a) xs @ ys"
    by (intro dropWhile_append1) auto
  moreover from \<open>a \<in> set xs\<close> have "dropWhile (\<lambda>x. x \<noteq> a) xs \<noteq> []"
    by (simp add: dropWhile_eq_Nil_conv) 
  ultimately show ?thesis using p unfolding precedes_def by (cases "dropWhile (\<lambda>x. x \<noteq> a) xs") auto
qed

lemma precedes_snoc: "a \<in> set xs \<Longrightarrow> precedes a b (xs @ [b])"
proof -
  assume a: "a \<in> set xs"
  then have "dropWhile (\<lambda>x. x \<noteq> a) (xs @ [b]) = dropWhile (\<lambda>x. x \<noteq> a) xs @ [b]"
    by (intro dropWhile_append1) auto
  moreover from a have "dropWhile (\<lambda>x. x \<noteq> a) xs \<noteq> []"
    by (simp add: dropWhile_eq_Nil_conv) 
  ultimately show ?thesis unfolding precedes_def by (cases "dropWhile (\<lambda>x. x \<noteq> a) xs") auto
qed

lemma sort_parent_module_mset:
  "sort_parent_module pm m ms so = (ms', so') \<Longrightarrow> mset ms' + mset so' = mset ms + mset so + {#m#}"
proof (induction pm m ms so arbitrary: ms' so' rule: sort_parent_module.induct)
  case (1 pm m ms so)
  show ?case
  proof (cases "pm m")
    case None
    with "1.prems" show ?thesis by (auto simp: sort_parent_module.simps)
  next
    case (Some p)
    show ?thesis
    proof (cases "p \<in> set ms")
      case True
      obtain ms1 so1 where r: "sort_parent_module pm p (remove1 p ms) so = (ms1, so1)"
        by (cases "sort_parent_module pm p (remove1 p ms) so")
      from "1.IH" [OF Some True r]
      have "mset ms1 + mset so1 = mset (remove1 p ms) + mset so + {#p#}" .
      moreover from "1.prems" Some True r have "ms' = ms1" "so' = so1 @ [m]"
        by (simp_all add: sort_parent_module.simps [of pm m])
      ultimately show ?thesis using True by simp
    next
      case False
      with Some "1.prems" show ?thesis by (auto simp: sort_parent_module.simps)
    qed
  qed
qed

lemma sort_parent_module_snoc:
  "sort_parent_module pm m ms so = (ms', so') \<Longrightarrow> m \<in> set so'"
  by (subst (asm) sort_parent_module.simps) (auto split: option.splits prod.splits if_splits)

lemma anc_first_snoc:
  assumes "anc_first R xs" and "\<And>a. (m, a) \<in> R\<^sup>+ \<Longrightarrow> a \<in> set xs"
  shows "anc_first R (xs @ [m])"
  unfolding anc_first_def
proof (intro ballI allI impI)
  fix x a assume x: "x \<in> set (xs @ [m])" and xa: "(x, a) \<in> R\<^sup>+"
  show "precedes a x (xs @ [m])"
  proof (cases "x \<in> set xs")
    case True
    with assms(1) xa have "precedes a x xs" by (auto simp: anc_first_def)
    then show ?thesis by (rule precedes_append)
  next
    case False
    with x have "x = m" by simp
    with xa assms(2) have "a \<in> set xs" by simp
    then show ?thesis using \<open>x = m\<close> by (simp add: precedes_snoc)
  qed
qed

lemma sort_parent_module_subset:
  "sort_parent_module pm m ms so = (ms', so') \<Longrightarrow> set ms' \<subseteq> set ms"
proof (induction pm m ms so arbitrary: ms' so' rule: sort_parent_module.induct)
  case (1 pm m ms so)
  show ?case
  proof (cases "pm m")
    case None
    with "1.prems" show ?thesis by (auto simp: sort_parent_module.simps)
  next
    case (Some p)
    show ?thesis
    proof (cases "p \<in> set ms")
      case True
      obtain ms1 so1 where r: "sort_parent_module pm p (remove1 p ms) so = (ms1, so1)"
        by (cases "sort_parent_module pm p (remove1 p ms) so")
      from "1.IH" [OF Some True r] have "set ms1 \<subseteq> set (remove1 p ms)" .
      moreover from "1.prems" Some True r have "ms' = ms1"
        by (simp add: sort_parent_module.simps [of pm m])
      ultimately show ?thesis using set_remove1_subset [of p ms] by blast
    next
      case False
      with Some "1.prems" show ?thesis by (auto simp: sort_parent_module.simps)
    qed
  qed
qed

lemma sort_parent_module_anc_first:
  "sort_parent_module pm m ms so = (ms', so') \<Longrightarrow> acyclic (parent_rel S pm) \<Longrightarrow>
    m \<in> S \<Longrightarrow> set ms \<subseteq> S \<Longrightarrow>
    (\<forall>x\<in>S. x \<in> set ms \<or> x \<in> set so \<or> (x, m) \<in> (parent_rel S pm)\<^sup>*) \<Longrightarrow>
    anc_first (parent_rel S pm) so \<Longrightarrow> anc_first (parent_rel S pm) so'"
proof (induction pm m ms so arbitrary: ms' so' rule: sort_parent_module.induct)
  case (1 pm m ms so)
  let ?R = "parent_rel S pm"
  note acy = "1.prems"(2)
  note mS = "1.prems"(3)
  note msS = "1.prems"(4)
  note covm = "1.prems"(5)
  note af = "1.prems"(6)
  have step: "\<And>a. (m, a) \<in> ?R\<^sup>+ \<Longrightarrow> \<exists>p. pm m = Some p \<and> p \<in> S \<and> (a = p \<or> (p, a) \<in> ?R\<^sup>+)"
  proof -
    fix a assume "(m, a) \<in> ?R\<^sup>+"
    then obtain p where "(m, p) \<in> ?R" "(p, a) \<in> ?R\<^sup>*" by (meson tranclD)
    then show "\<exists>p. pm m = Some p \<and> p \<in> S \<and> (a = p \<or> (p, a) \<in> ?R\<^sup>+)"
      by (auto simp: parent_rel_def dest: rtranclD)
  qed
  show ?case
  proof (cases "pm m")
    case None
    with "1.prems"(1) have so': "so' = so @ [m]" by (simp add: sort_parent_module.simps)
    show ?thesis unfolding so'
      by (rule anc_first_snoc [OF af]) (use step None in auto)
  next
    case (Some p)
    show ?thesis
    proof (cases "p \<in> set ms")
      case True
      obtain ms1 so1 where r: "sort_parent_module pm p (remove1 p ms) so = (ms1, so1)"
        by (cases "sort_parent_module pm p (remove1 p ms) so")
      from "1.prems"(1) Some True r have so': "so' = so1 @ [m]"
        by (simp add: sort_parent_module.simps [of pm m])
      have pS: "p \<in> S" using True msS by auto
      have mp: "(m, p) \<in> ?R" using Some pS mS by (simp add: parent_rel_def)
      have cov: "\<forall>x\<in>S. x \<in> set (remove1 p ms) \<or> x \<in> set so \<or> (x, p) \<in> ?R\<^sup>*"
      proof
        fix x assume xS: "x \<in> S"
        with covm consider "x \<in> set ms" | "x \<in> set so" | "(x, m) \<in> ?R\<^sup>*" by blast
        then show "x \<in> set (remove1 p ms) \<or> x \<in> set so \<or> (x, p) \<in> ?R\<^sup>*"
        proof cases
          case 1
          then show ?thesis by (cases "x = p") (auto simp: in_set_remove1)
        next
          case 2
          then show ?thesis by simp
        next
          case 3
          with mp show ?thesis by (meson rtrancl.rtrancl_into_rtrancl)
        qed
      qed
      have sub: "set (remove1 p ms) \<subseteq> S" using msS set_remove1_subset by fastforce
      have af1: "anc_first ?R so1"
        by (rule "1.IH" [OF Some True r acy pS sub cov af])
      have pin: "p \<in> set so1" by (rule sort_parent_module_snoc [OF r])
      show ?thesis unfolding so'
      proof (rule anc_first_snoc [OF af1])
        fix a assume "(m, a) \<in> ?R\<^sup>+"
        from step [OF this] Some have "a = p \<or> (p, a) \<in> ?R\<^sup>+" by auto
        then show "a \<in> set so1"
        proof
          assume "a = p" with pin show ?thesis by simp
        next
          assume "(p, a) \<in> ?R\<^sup>+"
          with af1 pin have "precedes a p so1" by (auto simp: anc_first_def)
          then show ?thesis by (rule precedes_in_set)
        qed
      qed
    next
      case False
      with Some "1.prems"(1) have so': "so' = so @ [m]" by (simp add: sort_parent_module.simps)
      show ?thesis unfolding so'
      proof (rule anc_first_snoc [OF af])
        fix a assume ma: "(m, a) \<in> ?R\<^sup>+"
        from step [OF this] Some have pS: "p \<in> S" and ap: "a = p \<or> (p, a) \<in> ?R\<^sup>+" by auto
        have mp: "(m, p) \<in> ?R" using Some pS mS by (simp add: parent_rel_def)
        have "(p, m) \<notin> ?R\<^sup>*"
        proof
          assume "(p, m) \<in> ?R\<^sup>*"
          with mp have "(m, m) \<in> ?R\<^sup>+" by (meson rtrancl_into_trancl2)
          with acy show False unfolding acyclic_def by blast
        qed
        with covm pS False have pin: "p \<in> set so" by blast
        from ap show "a \<in> set so"
        proof
          assume "a = p" with pin show ?thesis by simp
        next
          assume "(p, a) \<in> ?R\<^sup>+"
          with af pin have "precedes a p so" by (auto simp: anc_first_def)
          then show ?thesis by (rule precedes_in_set)
        qed
      qed
    qed
  qed
qed

lemma sort_modules_loop_mset:
  "mset (sort_modules_loop pm ms so) = mset ms + mset so"
proof (induction pm ms so rule: sort_modules_loop.induct)
  case (1 pm ms so)
  show ?case
  proof (cases "ms = []")
    case True
    then show ?thesis by (simp add: sort_modules_loop.simps)
  next
    case False
    obtain ms1 so1 where r: "sort_parent_module pm (last ms) (butlast ms) so = (ms1, so1)"
      by (cases "sort_parent_module pm (last ms) (butlast ms) so")
    have "mset (sort_modules_loop pm ms1 so1) = mset ms1 + mset so1"
      by (rule "1.IH" [OF False r [symmetric]])
    also have "\<dots> = mset (butlast ms) + mset so + {#last ms#}"
      by (rule sort_parent_module_mset [OF r])
    also have "\<dots> = mset ms + mset so"
      using False by (cases ms rule: rev_cases) auto
    finally show ?thesis using False r by (simp add: sort_modules_loop.simps [of pm ms])
  qed
qed

lemma sort_modules_loop_anc_first:
  "acyclic (parent_rel S pm) \<Longrightarrow> set ms \<subseteq> S \<Longrightarrow> (\<forall>x\<in>S. x \<in> set ms \<or> x \<in> set so) \<Longrightarrow>
    anc_first (parent_rel S pm) so \<Longrightarrow> anc_first (parent_rel S pm) (sort_modules_loop pm ms so)"
proof (induction pm ms so rule: sort_modules_loop.induct)
  case (1 pm ms so)
  show ?case
  proof (cases "ms = []")
    case True
    with "1.prems" show ?thesis by (simp add: sort_modules_loop.simps)
  next
    case False
    note acy = "1.prems"(1)
    note msS = "1.prems"(2)
    note covS = "1.prems"(3)
    note af = "1.prems"(4)
    obtain ms1 so1 where r: "sort_parent_module pm (last ms) (butlast ms) so = (ms1, so1)"
      by (cases "sort_parent_module pm (last ms) (butlast ms) so")
    have lastS: "last ms \<in> S" using False msS by (meson last_in_set subsetD)
    have sub: "set (butlast ms) \<subseteq> S" using msS by (meson in_set_butlastD subsetD subsetI)
    have cov: "\<forall>x\<in>S. x \<in> set (butlast ms) \<or> x \<in> set so \<or> (x, last ms) \<in> (parent_rel S pm)\<^sup>*"
    proof
      fix x assume "x \<in> S"
      with covS have "x \<in> set ms \<or> x \<in> set so" by blast
      moreover have "set ms = insert (last ms) (set (butlast ms))"
        using False by (cases ms rule: rev_cases) auto
      ultimately show "x \<in> set (butlast ms) \<or> x \<in> set so \<or> (x, last ms) \<in> (parent_rel S pm)\<^sup>*"
        by auto
    qed
    have af1: "anc_first (parent_rel S pm) so1"
      by (rule sort_parent_module_anc_first [OF r acy lastS sub cov af])
    have m: "mset ms1 + mset so1 = mset (butlast ms) + mset so + {#last ms#}"
      by (rule sort_parent_module_mset [OF r])
    then have "set_mset (mset ms1 + mset so1) = set_mset (mset (butlast ms) + mset so + {#last ms#})"
      by simp
    then have seteq: "set ms1 \<union> set so1 = set (butlast ms) \<union> set so \<union> {last ms}" by simp
    have sub1: "set ms1 \<subseteq> S" using sort_parent_module_subset [OF r] sub by blast
    have setms: "set ms = insert (last ms) (set (butlast ms))"
      using False by (cases ms rule: rev_cases) auto
    have cov1: "\<forall>x\<in>S. x \<in> set ms1 \<or> x \<in> set so1"
    proof
      fix x assume "x \<in> S"
      with covS have "x \<in> set ms \<or> x \<in> set so" by blast
      with setms have "x \<in> set (butlast ms) \<union> set so \<union> {last ms}" by auto
      with seteq show "x \<in> set ms1 \<or> x \<in> set so1" by blast
    qed
    have "anc_first (parent_rel S pm) (sort_modules_loop pm ms1 so1)"
      by (rule "1.IH" [OF False r [symmetric] acy sub1 cov1 af1])
    then show ?thesis using False r by (simp add: sort_modules_loop.simps [of pm ms])
  qed
qed

text \<open>
  C3, as the code has it: for any module list and any parent relation, cyclic or not,
  the sorter returns (it is a total function), and what it returns holds every input
  module exactly as often as the input does.  The sorter has no error to report.
\<close>

theorem sort_modules_permutation: "mset (sort_modules pm modules) = mset modules"
  unfolding sort_modules_def by (simp add: sort_modules_loop_mset)

text \<open>
  C3 counterexample: two modules that are each other's parent.  \<^verbatim>\<open>rig_modules\<close>
  returns the order \<open>A, B\<close> and raises nothing.
\<close>

theorem cycle_not_reported:
  "\<not> acyclic (parent_rel (set [''A'', ''B'']) (parent_module cycle_scene)) \<and>
   listRelatives cycle_scene (modules_group cycle_scene) = [''A'', ''B''] \<and>
   rig_modules demo cycle_scene = Inr [''A'', ''B'']"
proof (intro conjI)
  let ?R = "parent_rel (set [''A'', ''B'']) (parent_module cycle_scene)"
  have "(''A'', ''B'') \<in> ?R" and "(''B'', ''A'') \<in> ?R"
    by (simp_all add: parent_rel_def cycle_scene_def cycle2_def)
  then have "(''A'', ''A'') \<in> ?R\<^sup>+" by (meson trancl.intros)
  then show "\<not> acyclic ?R" unfolding acyclic_def by blast
  show lr: "listRelatives cycle_scene (modules_group cycle_scene) = [''A'', ''B'']"
    by (simp add: listRelatives_def cycle_scene_def empty_scene_def)
  have "wrap_modules demo cycle_scene [''A'', ''B''] = Inr [''A'', ''B'']"
    by (simp add: demo_def cycle_scene_def)
  moreover have "sort_modules (parent_module cycle_scene) [''A'', ''B''] = [''A'', ''B'']"
    by (simp add: sort_modules_def sort_modules_loop.simps sort_parent_module.simps
          cycle_scene_def cycle2_def)
  ultimately show "rig_modules demo cycle_scene = Inr [''A'', ''B'']"
    by (simp add: rig_modules_def lr)
qed

text \<open>
  C2: for a list of distinct modules whose parent relation (among these modules) is
  acyclic, the sorted sequence holds exactly the input modules, each once, and every
  module stands strictly after its parent and after every module of its parent chain.
\<close>

theorem sort_modules_parents_first:
  assumes "distinct modules" and "acyclic (parent_rel (set modules) pm)"
  shows "distinct (sort_modules pm modules) \<and> set (sort_modules pm modules) = set modules \<and>
         (\<forall>m a. (m, a) \<in> (parent_rel (set modules) pm)\<^sup>+ \<longrightarrow> precedes a m (sort_modules pm modules))"
proof (intro conjI allI impI)
  have m: "mset (sort_modules pm modules) = mset modules"
    unfolding sort_modules_def by (simp add: sort_modules_loop_mset)
  from m assms(1) show "distinct (sort_modules pm modules)"
    by (metis mset_eq_imp_distinct_iff)
  from m show s: "set (sort_modules pm modules) = set modules"
    by (rule mset_eq_setD)
  have af: "anc_first (parent_rel (set modules) pm) (sort_modules pm modules)"
    unfolding sort_modules_def
    by (rule sort_modules_loop_anc_first [OF assms(2)]) (simp_all add: anc_first_def)
  fix x a assume xa: "(x, a) \<in> (parent_rel (set modules) pm)\<^sup>+"
  then have "x \<in> set modules" by (induction rule: trancl.induct) (auto simp: parent_rel_def)
  with s af xa show "precedes a x (sort_modules pm modules)" by (auto simp: anc_first_def)
qed

lemma chain3_acyclic: "acyclic (parent_rel (set [''C'', ''A'', ''B'']) chain3)"
proof (rule acyclicI_order [where f = "\<lambda>n. if n = ''A'' then 0 else if n = ''B'' then 1 else (2::nat)"])
  fix a b assume "(a, b) \<in> parent_rel (set [''C'', ''A'', ''B'']) chain3"
  then show "(if b = ''A'' then 0 else if b = ''B'' then 1 else (2::nat))
             < (if a = ''A'' then 0 else if a = ''B'' then 1 else 2)"
    by (auto simp: parent_rel_def chain3_def split: if_splits)
qed

text \<open>The chain \<open>A \<leftarrow> B \<leftarrow> C\<close>, given as \<open>C, A, B\<close>: the theorem puts \<open>A\<close> before
  \<open>B\<close> before \<open>C\<close>.\<close>

theorem sort_modules_parents_first_witness:
  "distinct [''C'', ''A'', ''B''] \<and> acyclic (parent_rel (set [''C'', ''A'', ''B'']) chain3) \<and>
   set (sort_modules chain3 [''C'', ''A'', ''B'']) = {''A'', ''B'', ''C''} \<and>
   precedes ''A'' ''B'' (sort_modules chain3 [''C'', ''A'', ''B'']) \<and>
   precedes ''B'' ''C'' (sort_modules chain3 [''C'', ''A'', ''B'']) \<and>
   precedes ''A'' ''C'' (sort_modules chain3 [''C'', ''A'', ''B''])"
proof -
  let ?ms = "[''C'', ''A'', ''B'']"
  let ?R = "parent_rel (set ?ms) chain3"
  have d: "distinct ?ms" by simp
  have ba: "(''B'', ''A'') \<in> ?R" and cb: "(''C'', ''B'') \<in> ?R"
    by (simp_all add: parent_rel_def chain3_def)
  then have ca: "(''C'', ''A'') \<in> ?R\<^sup>+" by (meson trancl.intros)
  note th = sort_modules_parents_first [OF d chain3_acyclic]
  from th ba have "precedes ''A'' ''B'' (sort_modules chain3 ?ms)" by blast
  moreover from th cb have "precedes ''B'' ''C'' (sort_modules chain3 ?ms)" by blast
  moreover from th ca have "precedes ''A'' ''C'' (sort_modules chain3 ?ms)" by blast
  moreover from th have "set (sort_modules chain3 ?ms) = {''A'', ''B'', ''C''}" by auto
  ultimately show ?thesis using d chain3_acyclic by blast
qed

text \<open>The six orders in which the chain can be handed to the sorter all give
  \<open>A, B, C\<close>.\<close>

lemma chain3_all_orders:
  "sort_modules chain3 [''A'', ''B'', ''C''] = [''A'', ''B'', ''C'']"
  "sort_modules chain3 [''A'', ''C'', ''B''] = [''A'', ''B'', ''C'']"
  "sort_modules chain3 [''B'', ''A'', ''C''] = [''A'', ''B'', ''C'']"
  "sort_modules chain3 [''B'', ''C'', ''A''] = [''A'', ''B'', ''C'']"
  "sort_modules chain3 [''C'', ''A'', ''B''] = [''A'', ''B'', ''C'']"
  "sort_modules chain3 [''C'', ''B'', ''A''] = [''A'', ''B'', ''C'']"
  by (simp_all add: sort_modules_def sort_modules_loop.simps sort_parent_module.simps chain3_def)

section \<open>Adding, finding and deleting modules\<close>

text \<open>
  C5: \<^verbatim>\<open>add_module\<close> raises \<^verbatim>\<open>RuntimeError\<close> on a built rig and
  \<^verbatim>\<open>ValueError\<close> for a module type that is not a key of the registry, in both cases
  leaving the scene as it was; otherwise it calls the registered class with
  \<^verbatim>\<open>rig=self\<close> added to the keyword arguments and returns the module it made.
\<close>

theorem add_module_guarded:
  "(is_built s RIG \<longrightarrow> add_module c mtype a s = (Inl RuntimeError, s)) \<and>
   (\<not> is_built s RIG \<and> all_rig_modules c mtype = None \<longrightarrow>
      add_module c mtype a s = (Inl ValueError, s)) \<and>
   (\<forall>cls. \<not> is_built s RIG \<and> all_rig_modules c mtype = Some cls \<longrightarrow>
      add_module c mtype a s =
        (Inr (fst (cls (a\<lparr>kwargs := (kwargs a)(''rig'' \<mapsto> RIG)\<rparr>) s)),
         snd (cls (a\<lparr>kwargs := (kwargs a)(''rig'' \<mapsto> RIG)\<rparr>) s)))"
  by (simp add: add_module_def case_prod_unfold)

text \<open>The three cases on the example registry, which knows the type \<open>limb\<close> only.\<close>

theorem add_module_guarded_witness:
  "is_built built_scene RIG \<and> add_module demo ''limb'' spine_args built_scene = (Inl RuntimeError, built_scene) \<and>
   \<not> is_built empty_scene RIG \<and> all_rig_modules demo ''wing'' = None \<and>
   add_module demo ''wing'' spine_args empty_scene = (Inl ValueError, empty_scene) \<and>
   all_rig_modules demo ''limb'' = Some limb_class \<and>
   fst (add_module demo ''limb'' spine_args empty_scene) = Inr ''S'' \<and>
   ls (snd (add_module demo ''limb'' spine_args empty_scene)) = ls empty_scene @ [''S'']"
proof -
  have b: "is_built built_scene RIG" by (simp add: built_scene_def)
  have u: "\<not> is_built empty_scene RIG" by (simp add: empty_scene_def)
  have w: "all_rig_modules demo ''wing'' = None" by (simp add: demo_def)
  have l: "all_rig_modules demo ''limb'' = Some limb_class" by (simp add: demo_def)
  from add_module_guarded [of built_scene demo "''limb''" spine_args] b
  have 1: "add_module demo ''limb'' spine_args built_scene = (Inl RuntimeError, built_scene)" by blast
  from add_module_guarded [of empty_scene demo "''wing''" spine_args] u w
  have 2: "add_module demo ''wing'' spine_args empty_scene = (Inl ValueError, empty_scene)" by blast
  from add_module_guarded [of empty_scene demo "''limb''" spine_args] u l
  have 3: "add_module demo ''limb'' spine_args empty_scene =
        (Inr (fst (limb_class (spine_args\<lparr>kwargs := (kwargs spine_args)(''rig'' \<mapsto> RIG)\<rparr>) empty_scene)),
         snd (limb_class (spine_args\<lparr>kwargs := (kwargs spine_args)(''rig'' \<mapsto> RIG)\<rparr>) empty_scene))" by blast
  have 4: "fst (add_module demo ''limb'' spine_args empty_scene) = Inr ''S''"
    unfolding 3 by (simp add: limb_class_def spine_args_def Let_def)
  have 5: "ls (snd (add_module demo ''limb'' spine_args empty_scene)) = ls empty_scene @ [''S'']"
    unfolding 3 by (simp add: limb_class_def spine_args_def Let_def)
  from b u w l 1 2 4 5 show ?thesis by blast
qed

lemma cycle_scene_modules: "rig_modules demo cycle_scene = Inr [''A'', ''B'']"
proof -
  have lr: "listRelatives cycle_scene (modules_group cycle_scene) = [''A'', ''B'']"
    by (simp add: listRelatives_def cycle_scene_def empty_scene_def)
  have "wrap_modules demo cycle_scene [''A'', ''B''] = Inr [''A'', ''B'']"
    by (simp add: demo_def cycle_scene_def)
  moreover have "sort_modules (parent_module cycle_scene) [''A'', ''B''] = [''A'', ''B'']"
    by (simp add: sort_modules_def sort_modules_loop.simps sort_parent_module.simps
          cycle_scene_def cycle2_def)
  ultimately show ?thesis by (simp add: rig_modules_def lr)
qed

text \<open>
  C10: on a rig that is not built, \<^verbatim>\<open>delete_module\<close> with a name that no module
  has raises: \<^verbatim>\<open>get_module\<close> logs a warning and returns \<^verbatim>\<open>None\<close>, and
  \<^verbatim>\<open>None.deform_joints\<close> is an \<^verbatim>\<open>AttributeError\<close>.
\<close>

theorem delete_module_missing_raises:
  assumes "\<not> is_built s RIG" and "rig_modules c s = Inr modules" and "name \<notin> set modules"
  shows "get_module c name s = (Inr None, log_record ''warning'' (''Found no module named '' @ name @ ''.'') s) \<and>
         delete_module c name s = (Inl AttributeError, log_record ''warning'' (''Found no module named '' @ name @ ''.'') s)"
  using assms by (simp add: delete_module_def get_module_def)

text \<open>Deleting a module \<open>Z\<close> from a rig whose modules are \<open>A\<close> and \<open>B\<close>.\<close>

theorem delete_module_missing_raises_witness:
  "\<not> is_built cycle_scene RIG \<and> rig_modules demo cycle_scene = Inr [''A'', ''B''] \<and>
   ''Z'' \<notin> set [''A'', ''B''] \<and>
   fst (delete_module demo ''Z'' cycle_scene) = Inl AttributeError \<and>
   ls (snd (delete_module demo ''Z'' cycle_scene)) = ls cycle_scene \<and>
   logged (snd (delete_module demo ''Z'' cycle_scene)) = [(''warning'', ''Found no module named Z.'')]"
proof -
  have u: "\<not> is_built cycle_scene RIG" by (simp add: cycle_scene_def empty_scene_def)
  have z: "''Z'' \<notin> set [''A'', ''B'']" by simp
  note th = delete_module_missing_raises [OF u cycle_scene_modules z]
  from th have d: "delete_module demo ''Z'' cycle_scene =
      (Inl AttributeError, log_record ''warning'' (''Found no module named '' @ ''Z'' @ ''.'') cycle_scene)"
    by blast
  have "fst (delete_module demo ''Z'' cycle_scene) = Inl AttributeError" unfolding d by simp
  moreover have "ls (snd (delete_module demo ''Z'' cycle_scene)) = ls cycle_scene"
    unfolding d by (simp add: log_record_def)
  moreover have "logged (snd (delete_module demo ''Z'' cycle_scene)) = [(''warning'', ''Found no module named Z.'')]"
    unfolding d by (simp add: log_record_def cycle_scene_def empty_scene_def)
  ultimately show ?thesis using u z cycle_scene_modules by blast
qed












section \<open>Steps that keep the nodes and the rig attributes\<close>

lemma nodes_viewD:
  "nodes_view s' = nodes_view s \<Longrightarrow> ls s' = ls s \<and> dag_parent s' = dag_parent s \<and> is_build_node s' = is_build_node s"
  by (simp add: nodes_view_def)

lemma rig_viewD:
  "rig_view s' = rig_view s \<Longrightarrow> modules_group s' = modules_group s \<and> skeleton_group s' = skeleton_group s \<and>
     module_type s' = module_type s \<and> parent_module s' = parent_module s \<and>
     placement_group s' = placement_group s \<and> is_built s' = is_built s \<and> visibility s' = visibility s"
  by (simp add: rig_view_def)

lemma fold_keeps_nodes:
  "(\<And>x. keeps_nodes (f x)) \<Longrightarrow> nodes_view (fold f xs s) = nodes_view s"
  by (induction xs arbitrary: s) (auto simp: keeps_nodes_def)

lemma fold_keeps_rig:
  "(\<And>x. keeps_rig (f x)) \<Longrightarrow> rig_view (fold f xs s) = rig_view s"
  by (induction xs arbitrary: s) (auto simp: keeps_rig_def)

lemma reset_pose_nodes:
  "(\<And>n. keeps_nodes (reset_node c n)) \<Longrightarrow> nodes_view (reset_pose c s) = nodes_view s"
  unfolding reset_pose_def by (rule fold_keeps_nodes)

lemma reset_pose_rig:
  "(\<And>n. keeps_rig (reset_node c n)) \<Longrightarrow> rig_view (reset_pose c s) = rig_view s"
  unfolding reset_pose_def by (rule fold_keeps_rig)

lemma capture_controller_keeps: "keeps_nodes (capture_controller c ctl)"
  by (simp add: keeps_nodes_def nodes_view_def capture_controller_def Let_def split: sum.splits)

lemma capture_controller_rig: "keeps_rig (capture_controller c ctl)"
  by (simp add: keeps_rig_def rig_view_def capture_controller_def Let_def split: sum.splits)

lemma capture_controller_controllers: "controllers (capture_controller c ctl s) = controllers s"
  by (simp add: capture_controller_def Let_def split: sum.splits)

lemma unbuild_module_keeps: "keeps_nodes (unbuild_module c m)"
  using fold_keeps_nodes [of "capture_controller c", OF capture_controller_keeps]
  by (simp add: keeps_nodes_def nodes_view_def unbuild_module_def Let_def)

lemma unbuild_module_fields:
  "modules_group (unbuild_module c m s) = modules_group s"
  "skeleton_group (unbuild_module c m s) = skeleton_group s"
  "module_type (unbuild_module c m s) = module_type s"
  "parent_module (unbuild_module c m s) = parent_module s"
  "placement_group (unbuild_module c m s) = placement_group s"
  "is_built (unbuild_module c m s) = is_built s"
  "visibility (unbuild_module c m s) = (visibility s)(placement_group s m := True)"
  using fold_keeps_rig [of "capture_controller c" "controllers s m" s, OF capture_controller_rig]
  by (simp_all add: unbuild_module_def Let_def rig_view_def)

lemma fold_unbuild_module_fields:
  "modules_group (fold (unbuild_module c) ms s) = modules_group s"
  "skeleton_group (fold (unbuild_module c) ms s) = skeleton_group s"
  "module_type (fold (unbuild_module c) ms s) = module_type s"
  "parent_module (fold (unbuild_module c) ms s) = parent_module s"
  "placement_group (fold (unbuild_module c) ms s) = placement_group s"
  "is_built (fold (unbuild_module c) ms s) = is_built s"
  by (induction ms arbitrary: s) (simp_all add: unbuild_module_fields)

lemma fold_unbuild_module_visibility:
  "visibility (fold (unbuild_module c) ms s) n = (visibility s n \<or> n \<in> placement_group s ` set ms)"
  by (induction ms arbitrary: s) (auto simp: unbuild_module_fields)

lemma disconnect_joint_keeps: "keeps_nodes (disconnect_joint j)" "keeps_rig (disconnect_joint j)"
  by (simp_all add: keeps_nodes_def keeps_rig_def nodes_view_def rig_view_def disconnect_joint_def)

lemma reset_is_built_keeps: "keeps_nodes (reset_is_built m)"
  by (simp add: keeps_nodes_def nodes_view_def reset_is_built_def)

lemma fold_reset_is_built_fields:
  "is_built (fold reset_is_built ms s) n = (n \<notin> set ms \<and> is_built s n)"
  "modules_group (fold reset_is_built ms s) = modules_group s"
  "module_type (fold reset_is_built ms s) = module_type s"
  "parent_module (fold reset_is_built ms s) = parent_module s"
  "placement_group (fold reset_is_built ms s) = placement_group s"
  "visibility (fold reset_is_built ms s) = visibility s"
  by (induction ms arbitrary: s) (auto simp: reset_is_built_def)

lemma wrap_modules_Inr: "wrap_modules c s ns = Inr ms \<Longrightarrow> ms = ns"
  by (induction ns arbitrary: ms) (auto split: option.splits sum.splits)

lemma rig_modules_set:
  "rig_modules c s = Inr ms \<Longrightarrow> set ms = set (listRelatives s (modules_group s))"
proof -
  assume "rig_modules c s = Inr ms"
  then obtain ns where w: "wrap_modules c s ns = Inr ns" "ns = listRelatives s (modules_group s)"
    and ms: "ms = sort_modules (parent_module s) ns"
    by (auto simp: rig_modules_def split: sum.splits dest: wrap_modules_Inr)
  have "mset ms = mset ns" unfolding ms sort_modules_def by (simp add: sort_modules_loop_mset)
  then have "set ms = set ns" by (rule mset_eq_setD)
  with w show ?thesis by simp
qed

lemma wrap_modules_cong:
  "module_type s' = module_type s \<Longrightarrow> wrap_modules c s' ns = wrap_modules c s ns"
  by (induction ns) (auto split: option.splits)

lemma rig_modules_cong:
  assumes "ls s' = ls s" "dag_parent s' = dag_parent s" "modules_group s' = modules_group s"
    "module_type s' = module_type s" "parent_module s' = parent_module s"
  shows "rig_modules c s' = rig_modules c s"
  using assms wrap_modules_cong [of s' s c]
  by (simp add: rig_modules_def listRelatives_def split: sum.splits)

lemma doomed_cong:
  "nodes_view s' = nodes_view s \<Longrightarrow> doomed s' = doomed s"
  by (intro ext) (simp add: nodes_view_def doomed_def descendant_def)

lemma build_nodes_cong:
  "nodes_view s' = nodes_view s \<Longrightarrow> build_nodes s' = build_nodes s"
  by (simp add: nodes_view_def build_nodes_def)

lemma delete_fields:
  "ls (delete ns s) = filter (\<lambda>n. \<not> doomed s ns n) (ls s)"
  "is_build_node (delete ns s) = {n \<in> is_build_node s. \<not> doomed s ns n}"
  "dag_parent (delete ns s) = dag_parent s"
  "rig_view (delete ns s) = rig_view s"
  by (simp_all add: delete_def rig_view_def)

lemma unbuild_steps:
  assumes "unbuild c s = Inr s'"
  obtains modules joints modules' s1 s2 s3 s4 where
    "s1 = reset_pose c (run_scripts c ''pre_unbuild'' s)"
    "rig_modules c s1 = Inr modules"
    "s2 = fold (unbuild_module c) modules s1"
    "skeleton s2 = Inr joints"
    "s3 = fold disconnect_joint joints s2"
    "s4 = delete (build_nodes s3) s3"
    "rig_modules c s4 = Inr modules'"
    "s' = run_scripts c ''post_unbuild'' (reset_is_built RIG (fold reset_is_built modules' s4))"
  using assms by (auto simp: unbuild_def Let_def split: sum.splits)

lemma unbuild_ls:
  assumes pre_n: "keeps_nodes (run_scripts c ''pre_unbuild'')"
    and post_n: "keeps_nodes (run_scripts c ''post_unbuild'')"
    and reset: "\<And>n. keeps_nodes (reset_node c n)"
    and ub: "unbuild c s = Inr s'"
  shows "ls s' = filter (\<lambda>n. \<not> doomed s (build_nodes s) n) (ls s)"
    and "is_build_node s' = {n \<in> is_build_node s. \<not> doomed s (build_nodes s) n}"
    and "dag_parent s' = dag_parent s"
proof -
  from ub obtain modules joints modules' s1 s2 s3 s4 where
    s1: "s1 = reset_pose c (run_scripts c ''pre_unbuild'' s)" and
    s2: "s2 = fold (unbuild_module c) modules s1" and
    s3: "s3 = fold disconnect_joint joints s2" and
    s4: "s4 = delete (build_nodes s3) s3" and
    s': "s' = run_scripts c ''post_unbuild'' (reset_is_built RIG (fold reset_is_built modules' s4))"
    by (rule unbuild_steps)
  have v1: "nodes_view s1 = nodes_view s"
    unfolding s1 using reset_pose_nodes [of c, OF reset] pre_n by (simp add: keeps_nodes_def)
  have v2: "nodes_view s2 = nodes_view s1"
    unfolding s2 by (rule fold_keeps_nodes) (rule unbuild_module_keeps)
  have v3: "nodes_view s3 = nodes_view s2"
    unfolding s3 by (rule fold_keeps_nodes) (rule disconnect_joint_keeps)
  from v1 v2 v3 have v: "nodes_view s3 = nodes_view s" by simp
  have v5: "nodes_view s' = nodes_view s4"
    unfolding s' using post_n reset_is_built_keeps fold_keeps_nodes [of reset_is_built, OF reset_is_built_keeps]
    by (simp add: keeps_nodes_def)
  from v have e: "ls s3 = ls s" "dag_parent s3 = dag_parent s" "is_build_node s3 = is_build_node s"
    by (simp_all add: nodes_view_def)
  from v5 have f: "ls s' = ls s4" "dag_parent s' = dag_parent s4" "is_build_node s' = is_build_node s4"
    by (simp_all add: nodes_view_def)
  show "ls s' = filter (\<lambda>n. \<not> doomed s (build_nodes s) n) (ls s)"
    by (simp add: f s4 delete_fields e doomed_cong [OF v] build_nodes_cong [OF v])
  show "is_build_node s' = {n \<in> is_build_node s. \<not> doomed s (build_nodes s) n}"
    by (simp add: f s4 delete_fields e doomed_cong [OF v] build_nodes_cong [OF v])
  show "dag_parent s' = dag_parent s"
    by (simp add: f s4 delete_fields e)
qed

lemma listRelatives_delete_subset:
  "set (listRelatives (delete ns s) g) \<subseteq> set (listRelatives s g)"
  by (auto simp: listRelatives_def delete_fields)

lemma fold_const: "fold (\<lambda>x s. s) xs s = s"
  by (induction xs) auto

lemma wrap_modules_iff:
  "wrap_modules c s ns = Inr ns \<longleftrightarrow> (\<forall>n\<in>set ns. all_rig_modules c (module_type s n) \<noteq> None)"
  by (induction ns) (auto split: option.splits sum.splits)

lemma wrap_modules_cases: "wrap_modules c s ns = Inr ns \<or> wrap_modules c s ns = Inl KeyError"
  by (induction ns) (auto split: option.splits sum.splits)

lemma rig_modules_Inr_iff:
  "(\<exists>ms. rig_modules c s = Inr ms) \<longleftrightarrow>
     (\<forall>n\<in>set (listRelatives s (modules_group s)). all_rig_modules c (module_type s n) \<noteq> None)"
proof -
  let ?ns = "listRelatives s (modules_group s)"
  from wrap_modules_cases [of c s ?ns] show ?thesis
  proof
    assume w: "wrap_modules c s ?ns = Inr ?ns"
    then show ?thesis using wrap_modules_iff [of c s ?ns] by (simp add: rig_modules_def)
  next
    assume w: "wrap_modules c s ?ns = Inl KeyError"
    then have "wrap_modules c s ?ns \<noteq> Inr ?ns" by simp
    then show ?thesis using w wrap_modules_iff [of c s ?ns] by (simp add: rig_modules_def)
  qed
qed

lemma skeleton_cong:
  "nodes_view s' = nodes_view s \<Longrightarrow> skeleton_group s' = skeleton_group s \<Longrightarrow> skeleton s' = skeleton s"
proof -
  assume v: "nodes_view s' = nodes_view s" and g: "skeleton_group s' = skeleton_group s"
  from v have "descendant s' = descendant s"
    by (intro ext) (simp add: descendant_def nodes_view_def)
  with v g show ?thesis
    by (simp add: skeleton_def listRelatives_allDescendents_def nodes_view_def)
qed

lemma unbuild_completes:
  assumes pre_n: "keeps_nodes (run_scripts c ''pre_unbuild'')"
    and pre_r: "keeps_rig (run_scripts c ''pre_unbuild'')"
    and reset_n: "\<And>n. keeps_nodes (reset_node c n)"
    and reset_r: "\<And>n. keeps_rig (reset_node c n)"
    and m: "rig_modules c s = Inr modules"
    and sk: "skeleton s = Inr joints"
  shows "\<exists>s'. unbuild c s = Inr s'"
proof -
  let ?s1 = "reset_pose c (run_scripts c ''pre_unbuild'' s)"
  let ?s2 = "fold (unbuild_module c) modules ?s1"
  let ?s3 = "fold disconnect_joint joints ?s2"
  let ?s4 = "delete (build_nodes ?s3) ?s3"
  have n1: "nodes_view ?s1 = nodes_view s"
    using reset_pose_nodes [of c, OF reset_n] pre_n by (simp add: keeps_nodes_def)
  have r1: "rig_view ?s1 = rig_view s"
    using reset_pose_rig [of c, OF reset_r] pre_r by (simp add: keeps_rig_def)
  have "rig_modules c ?s1 = rig_modules c s"
    by (rule rig_modules_cong) (use n1 r1 in \<open>simp_all add: nodes_view_def rig_view_def\<close>)
  with m have m1: "rig_modules c ?s1 = Inr modules" by simp
  have n2: "nodes_view ?s2 = nodes_view ?s1"
    by (rule fold_keeps_nodes) (rule unbuild_module_keeps)
  have "skeleton ?s2 = skeleton s"
    by (rule skeleton_cong) (use n1 n2 r1 in \<open>simp_all add: fold_unbuild_module_fields rig_view_def\<close>)
  with sk have sk2: "skeleton ?s2 = Inr joints" by simp
  have n3: "nodes_view ?s3 = nodes_view ?s2"
    by (rule fold_keeps_nodes) (rule disconnect_joint_keeps)
  have r3: "rig_view ?s3 = rig_view ?s2"
    by (rule fold_keeps_rig) (rule disconnect_joint_keeps)
  have mt: "module_type ?s4 = module_type s" "modules_group ?s4 = modules_group s"
    using r3 r1 delete_fields(4) [of "build_nodes ?s3" ?s3]
    by (simp_all add: rig_view_def fold_unbuild_module_fields)
  have "set (listRelatives ?s4 (modules_group ?s4)) \<subseteq> set (listRelatives ?s3 (modules_group s))"
    using listRelatives_delete_subset [of "build_nodes ?s3" ?s3] by (simp add: mt)
  also have "\<dots> = set (listRelatives s (modules_group s))"
    using n3 n2 n1 by (simp add: listRelatives_def nodes_view_def)
  finally have sub: "set (listRelatives ?s4 (modules_group ?s4)) \<subseteq> set (listRelatives s (modules_group s))" .
  from m have "\<forall>n\<in>set (listRelatives s (modules_group s)). all_rig_modules c (module_type s n) \<noteq> None"
    using rig_modules_Inr_iff [of c s] by blast
  with sub have "\<forall>n\<in>set (listRelatives ?s4 (modules_group ?s4)). all_rig_modules c (module_type ?s4 n) \<noteq> None"
    by (auto simp: mt)
  then obtain modules' where m4: "rig_modules c ?s4 = Inr modules'"
    using rig_modules_Inr_iff [of c ?s4] by blast
  show ?thesis using m1 sk2 m4 by (simp add: unbuild_def Let_def)
qed

lemma tag_nodes_is_build_node:
  "is_build_node (tag_nodes_for_unbuild nodes s) = set nodes \<union> is_build_node s"
  unfolding tag_nodes_for_unbuild_def
  by (induction nodes arbitrary: s) auto

lemma tag_nodes_ls: "ls (tag_nodes_for_unbuild nodes s) = ls s"
  unfolding tag_nodes_for_unbuild_def
  by (induction nodes arbitrary: s) auto

lemma tag_nodes_is_built: "is_built (tag_nodes_for_unbuild nodes s) = is_built s"
  unfolding tag_nodes_for_unbuild_def
  by (induction nodes arbitrary: s) auto

lemma extends_refl: "extends s s"
  by (simp add: extends_def)

lemma extends_view: "nodes_view s' = nodes_view s \<Longrightarrow> extends s s'"
  by (simp add: extends_def nodes_view_def)

lemma extends_trans: "extends a b \<Longrightarrow> extends b c \<Longrightarrow> extends a c"
  by (fastforce simp: extends_def)

lemma extends_view_right: "extends a b \<Longrightarrow> nodes_view b' = nodes_view b \<Longrightarrow> extends a b'"
  by (simp add: extends_def nodes_view_def)

lemma for_each_nodes:
  assumes "\<And>x s s'. body x s = Inr s' \<Longrightarrow> nodes_view s' = nodes_view s"
  shows "for_each body xs s = Inr s' \<Longrightarrow> nodes_view s' = nodes_view s"
proof (induction xs arbitrary: s)
  case Nil
  then show ?case by simp
next
  case (Cons x xs)
  then obtain s1 where b: "body x s = Inr s1" and r: "for_each body xs s1 = Inr s'"
    by (auto split: sum.splits)
  from Cons.IH [OF r] assms [OF b] show ?case by simp
qed

lemma for_each_extends:
  assumes "\<And>x s s'. body x s = Inr s' \<Longrightarrow> extends s s'"
  shows "for_each body xs s = Inr s' \<Longrightarrow> extends s s'"
proof (induction xs arbitrary: s)
  case Nil
  then show ?case by (simp add: extends_refl)
next
  case (Cons x xs)
  then obtain s1 where b: "body x s = Inr s1" and r: "for_each body xs s1 = Inr s'"
    by (auto split: sum.splits)
  from assms [OF b] Cons.IH [OF r] show ?case by (rule extends_trans)
qed

lemma restore_attributes_state_nodes:
  assumes "\<And>ctl st. keeps_nodes (set_attributes_state c ctl st)"
  shows "restore_attributes_state c ctl s = Inr s' \<Longrightarrow> nodes_view s' = nodes_view s"
  using assms
  by (auto simp: restore_attributes_state_def keeps_nodes_def split: option.splits if_splits sum.splits)

lemma restore_parent_spaces_nodes:
  assumes "\<And>ctl p t. keeps_nodes (create_space_switching c ctl p t)"
  shows "restore_parent_spaces c ctl s = Inr s' \<Longrightarrow> nodes_view s' = nodes_view s"
  using assms
  by (auto simp: restore_parent_spaces_def keeps_nodes_def Let_def
           split: option.splits if_splits sum.splits json.splits)

lemma module_parent_spaces_nodes:
  assumes "\<And>ctl p t. keeps_nodes (create_space_switching c ctl p t)"
  shows "module_parent_spaces c m s = Inr s' \<Longrightarrow> nodes_view s' = nodes_view s"
  unfolding module_parent_spaces_def
  by (rule for_each_nodes [OF restore_parent_spaces_nodes [OF assms]])

lemma build_module_extends:
  assumes sas: "\<And>ctl st. keeps_nodes (set_attributes_state c ctl st)"
    and mb: "\<And>m. adds_only (module_build c m)"
  shows "build_module c m s = Inr s' \<Longrightarrow> extends s s'"
proof -
  assume b: "build_module c m s = Inr s'"
  let ?s1 = "module_build c m s"
  from b obtain s2 where
    f: "for_each (restore_attributes_state c) (controllers ?s1 m) ?s1 = Inr s2" and
    s': "s' = s2\<lparr>visibility := (visibility s2)(placement_group s2 m := False)\<rparr>"
    by (auto simp: build_module_def Let_def split: sum.splits)
  have e1: "extends s ?s1" using mb by (simp add: adds_only_def)
  have v2: "nodes_view s2 = nodes_view ?s1"
    by (rule for_each_nodes [OF restore_attributes_state_nodes [OF sas] f])
  have "nodes_view s' = nodes_view s2" by (simp add: s' nodes_view_def)
  with v2 have "nodes_view s' = nodes_view ?s1" by simp
  with e1 show "extends s s'" by (rule extends_view_right)
qed

lemma tag_nodes_view:
  "nodes_view (tag_nodes_for_unbuild nodes s) = (ls s, dag_parent s, set nodes \<union> is_build_node s)"
  unfolding tag_nodes_for_unbuild_def nodes_view_def
  by (induction nodes arbitrary: s) auto

lemma build_pass_nodes:
  "build_pass c s = Inr (s1, nds) \<Longrightarrow>
     set nds = set (ls s1) - set (ls (run_scripts c ''pre_build'' s))"
  by (auto simp: build_pass_def Let_def split: sum.splits)

lemma build_shape:
  assumes pre_n: "keeps_nodes (run_scripts c ''pre_build'')"
    and post_n: "keeps_nodes (run_scripts c ''post_build'')"
    and sas: "\<And>ctl st. keeps_nodes (set_attributes_state c ctl st)"
    and css: "\<And>ctl p t. keeps_nodes (create_space_switching c ctl p t)"
    and mb: "\<And>m. adds_only (module_build c m)"
    and b: "build c s = Inr s'"
  shows "set (ls s) \<subseteq> set (ls s')"
    and "\<forall>n\<in>set (ls s). dag_parent s' n = dag_parent s n"
    and "is_build_node s' = (set (ls s') - set (ls s)) \<union> is_build_node s"
proof -
  let ?s0 = "run_scripts c ''pre_build'' s"
  from b obtain s1 nds modules s2 where
    bp: "build_pass c s = Inr (s1, nds)" and
    sp: "for_each (module_parent_spaces c) modules s1 = Inr s2" and
    s': "s' = (tag_nodes_for_unbuild nds (run_scripts c ''post_build'' s2))
               \<lparr>is_built := (is_built (tag_nodes_for_unbuild nds (run_scripts c ''post_build'' s2)))(RIG := True)\<rparr>"
    by (auto simp: build_def Let_def split: sum.splits prod.splits)
  from bp obtain modules0 where
    fe: "for_each (build_module c) modules0 ?s0 = Inr s1"
    by (auto simp: build_pass_def Let_def split: sum.splits)
  have nds: "set nds = set (ls s1) - set (ls ?s0)"
    by (rule build_pass_nodes [OF bp])
  have v0: "nodes_view ?s0 = nodes_view s" using pre_n by (simp add: keeps_nodes_def)
  have e1: "extends ?s0 s1"
    by (rule for_each_extends [OF build_module_extends [OF sas mb] fe])
  have v2: "nodes_view s2 = nodes_view s1"
    by (rule for_each_nodes [OF module_parent_spaces_nodes [OF css] sp])
  have v3: "nodes_view (run_scripts c ''post_build'' s2) = nodes_view s1"
    using post_n v2 by (simp add: keeps_nodes_def)
  have "nodes_view s' = nodes_view (tag_nodes_for_unbuild nds (run_scripts c ''post_build'' s2))"
    by (simp add: s' nodes_view_def)
  also have "\<dots> = (ls (run_scripts c ''post_build'' s2), dag_parent (run_scripts c ''post_build'' s2),
                     set nds \<union> is_build_node (run_scripts c ''post_build'' s2))"
    by (rule tag_nodes_view)
  also have "\<dots> = (ls s1, dag_parent s1, set nds \<union> is_build_node s1)"
    using v3 by (simp add: nodes_view_def)
  finally have v': "ls s' = ls s1" "dag_parent s' = dag_parent s1"
    "is_build_node s' = set nds \<union> is_build_node s1"
    by (simp_all add: nodes_view_def)
  from v0 have z: "ls ?s0 = ls s" "dag_parent ?s0 = dag_parent s" "is_build_node ?s0 = is_build_node s"
    by (simp_all add: nodes_view_def)
  from e1 show "set (ls s) \<subseteq> set (ls s')" by (simp add: extends_def v' z)
  from e1 show "\<forall>n\<in>set (ls s). dag_parent s' n = dag_parent s n" by (simp add: extends_def v' z)
  from e1 show "is_build_node s' = (set (ls s') - set (ls s)) \<union> is_build_node s"
    by (simp add: extends_def v' z nds)
qed

lemma below_closed:
  assumes "\<forall>n\<in>S. \<forall>p. par n = Some p \<longrightarrow> p \<in> S"
  shows "below k par a n \<Longrightarrow> n \<in> S \<Longrightarrow> a \<in> S"
proof (induction k arbitrary: n)
  case 0
  then show ?case by simp
next
  case (Suc k)
  from Suc.prems obtain p where p: "par n = Some p" and d: "p = a \<or> below k par a p"
    by (auto split: option.splits)
  from assms Suc.prems(2) p have "p \<in> S" by blast
  with d Suc.IH show ?case by blast
qed

section \<open>The example rig, built\<close>

lemmas demo_simps = demo_def limb_build_def record_space_def toy_loads_def toy_dumps_def
  rig_scene_def empty_scene_def

lemmas rig_simps = rig_modules_def listRelatives_def sort_modules_def sort_modules_loop.simps
  sort_parent_module.simps build_module_def restore_attributes_state_def
  module_parent_spaces_def restore_parent_spaces_def dict_get_def tag_nodes_for_unbuild_def

lemma build_rig_scene_ok: "\<exists>s'. build demo rig_scene = Inr s'"
  by (simp add: build_def build_pass_def rig_simps demo_simps Let_def)

lemma build_rig_scene: "build demo rig_scene = Inr built_rig"
  using build_rig_scene_ok by (auto simp: built_rig_def)

lemma built_rig_fields:
  "ls built_rig = ls rig_scene @ [''S_drv'', ''A_drv'']"
  "is_build_node built_rig = {''S_drv'', ''A_drv''}"
  "dag_parent built_rig = dag_parent rig_scene"
  "modules_group built_rig = ''MODULES''"
  "skeleton_group built_rig = ''SKELETON''"
  "module_type built_rig = (\<lambda>n. ''limb'')"
  "parent_module built_rig = parent_module rig_scene"
  "controllers built_rig = controllers rig_scene"
  "placement_group built_rig = placement_group rig_scene"
  "is_built built_rig RIG"
  "is_built built_rig ''S''"
  "is_built built_rig ''A''"
  "\<not> visibility built_rig ''Sp''"
  "\<not> visibility built_rig ''Ap''"
  "incoming built_rig (''A_ctl'', ''.space'') = Some ''switch''"
  "incoming built_rig (''S_ctl'', ''.space'') = None"
  unfolding built_rig_def
  by (simp_all add: build_def build_pass_def rig_simps demo_simps Let_def RIG_def) auto

lemma demo_keeps:
  "keeps_nodes (run_scripts demo phase)" "keeps_rig (run_scripts demo phase)"
  "keeps_nodes (reset_node demo n)"
  "keeps_nodes (set_attributes_state demo ctl st)"
  "keeps_nodes (create_space_switching demo ctl p t)"
  by (simp_all add: keeps_nodes_def keeps_rig_def nodes_view_def rig_view_def demo_def record_space_def)

lemma demo_adds_only: "adds_only (module_build demo m)"
  by (auto simp: adds_only_def extends_def demo_def limb_build_def)

lemma rig_scene_closed: "closed_hierarchy rig_scene"
  by (auto simp: closed_hierarchy_def rig_scene_def empty_scene_def split: if_splits)

lemma rig_scene_unmarked: "build_nodes rig_scene = []"
  by (simp add: build_nodes_def rig_scene_def empty_scene_def)

lemma demo_resets_rig: "keeps_rig (reset_node demo n)"
  by (simp add: keeps_rig_def rig_view_def demo_def)

lemma built_rig_modules: "rig_modules demo built_rig = Inr [''S'', ''A'']"
  by (simp add: rig_modules_def listRelatives_def sort_modules_def
       sort_modules_loop.simps sort_parent_module.simps
       built_rig_fields demo_def rig_scene_def empty_scene_def)

lemma built_rig_skeleton: "skeleton built_rig = Inr [''Aj'', ''Sj'']"
  by (simp add: skeleton_def listRelatives_allDescendents_def descendant_def
       built_rig_fields rig_scene_def empty_scene_def)

lemma unbuild_built_rig_ok: "\<exists>s2. unbuild demo built_rig = Inr s2"
  by (rule unbuild_completes [OF demo_keeps(1) demo_keeps(2) demo_keeps(3) demo_resets_rig
        built_rig_modules built_rig_skeleton])

section \<open>Build\<close>

text \<open>
  C9: when \<^verbatim>\<open>build\<close> completes, the rig's \<^verbatim>\<open>is_built\<close> flag is set and every
  node of the ephemeral set (the nodes of the scene after the per-module pass that
  were not in the snapshot taken before it) carries the marker; \<^verbatim>\<open>build_nodes\<close>
  lists exactly the nodes of the scene that carry the marker.
\<close>

theorem build_tags_ephemeral:
  assumes "build c s = Inr s'"
  shows "is_built s' RIG \<and>
         (\<exists>s1 nds. build_pass c s = Inr (s1, nds) \<and>
            set nds = set (ls s1) - set (ls (run_scripts c ''pre_build'' s)) \<and>
            set nds \<subseteq> is_build_node s') \<and>
         set (build_nodes s') = {n \<in> set (ls s'). n \<in> is_build_node s'}"
proof -
  from assms obtain s1 nds modules s2 where
    bp: "build_pass c s = Inr (s1, nds)" and
    rm: "rig_modules c s1 = Inr modules" and
    sp: "for_each (module_parent_spaces c) modules s1 = Inr s2" and
    s': "s' = (tag_nodes_for_unbuild nds (run_scripts c ''post_build'' s2))
               \<lparr>is_built := (is_built (tag_nodes_for_unbuild nds (run_scripts c ''post_build'' s2)))(RIG := True)\<rparr>"
    by (auto simp: build_def Let_def split: sum.splits prod.splits)
  have 1: "is_built s' RIG" by (simp add: s')
  have 2: "set nds \<subseteq> is_build_node s'" by (simp add: s' tag_nodes_is_build_node)
  have 3: "set (build_nodes s') = {n \<in> set (ls s'). n \<in> is_build_node s'}"
    by (auto simp: build_nodes_def)
  from 1 2 3 bp build_pass_nodes [OF bp] show ?thesis by blast
qed

lemma built_rig_build_nodes: "build_nodes built_rig = [''S_drv'', ''A_drv'']"
  by (simp add: build_nodes_def built_rig_fields rig_scene_def empty_scene_def)

text \<open>The example rig: its build completes, and the two driver nodes made by the
  module build routines are the ephemeral set.\<close>

theorem build_tags_ephemeral_witness:
  "build demo rig_scene = Inr built_rig \<and> is_built built_rig RIG \<and>
   (\<exists>s1 nds. build_pass demo rig_scene = Inr (s1, nds) \<and>
      set nds = set (ls s1) - set (ls (run_scripts demo ''pre_build'' rig_scene)) \<and>
      set nds \<subseteq> is_build_node built_rig) \<and>
   set (build_nodes built_rig) = {n \<in> set (ls built_rig). n \<in> is_build_node built_rig} \<and>
   build_nodes built_rig = [''S_drv'', ''A_drv'']"
proof -
  note th = build_tags_ephemeral [OF build_rig_scene]
  from th have 1: "is_built built_rig RIG" by (rule conjunct1)
  from th have 2: "\<exists>s1 nds. build_pass demo rig_scene = Inr (s1, nds) \<and>
      set nds = set (ls s1) - set (ls (run_scripts demo ''pre_build'' rig_scene)) \<and>
      set nds \<subseteq> is_build_node built_rig" by (rule conjunct1 [OF conjunct2])
  from th have 3: "set (build_nodes built_rig) = {n \<in> set (ls built_rig). n \<in> is_build_node built_rig}"
    by (rule conjunct2 [OF conjunct2])
  show ?thesis
    by (intro conjI) (rule build_rig_scene 1 2 3 built_rig_build_nodes)+
qed

text \<open>What the second pass of \<^verbatim>\<open>build\<close> does with one controller's blob: an unset
  or empty attribute and a decoded value that is not an object are skipped; a text the
  decoder rejects raises.\<close>

lemma restore_parent_spaces_skips:
  "parent_space_data s ctl = None \<Longrightarrow> restore_parent_spaces c ctl s = Inr s"
  "parent_space_data s ctl = Some [] \<Longrightarrow> restore_parent_spaces c ctl s = Inr s"
  "parent_space_data s ctl = Some blob \<Longrightarrow> json_loads c blob = Inr j \<Longrightarrow> \<not> has_get j \<Longrightarrow>
     restore_parent_spaces c ctl s = Inr s"
  by (cases j; simp add: restore_parent_spaces_def)+

lemma restore_parent_spaces_raises:
  "parent_space_data s ctl = Some blob \<Longrightarrow> blob \<noteq> [] \<Longrightarrow> json_loads c blob = Inl e \<Longrightarrow>
     restore_parent_spaces c ctl s = Inl e"
  by (simp add: restore_parent_spaces_def)

text \<open>
  C4, the failing input: the spine's controller carries the text \<open>{bad json\<close>, the arm's
  controller a well-formed blob.  \<^verbatim>\<open>json.loads\<close> raises \<^verbatim>\<open>ValueError\<close> and so does
  \<^verbatim>\<open>build\<close>; without the bad text the same rig builds and the arm's controller gets
  its parent space.
\<close>

theorem build_bad_json_raises:
  "parent_space_data bad_scene ''S_ctl'' = Some ''{bad json'' \<and>
   json_loads demo ''{bad json'' = Inl ValueError \<and>
   build demo bad_scene = Inl ValueError \<and>
   (\<exists>s'. build demo rig_scene = Inr s' \<and> incoming s' (''A_ctl'', ''.space'') = Some ''switch'')"
proof (intro conjI)
  show "parent_space_data bad_scene ''S_ctl'' = Some ''{bad json''"
    by (simp add: bad_scene_def)
  show "json_loads demo ''{bad json'' = Inl ValueError"
    by (simp add: demo_def toy_loads_def)
  show "build demo bad_scene = Inl ValueError"
    by (simp add: build_def build_pass_def rig_simps demo_simps Let_def bad_scene_def)
  show "\<exists>s'. build demo rig_scene = Inr s' \<and> incoming s' (''A_ctl'', ''.space'') = Some ''switch''"
    using build_rig_scene built_rig_fields(15) by blast
qed

section \<open>Unbuild\<close>

text \<open>
  C8: when \<^verbatim>\<open>unbuild\<close> completes, for hooks that keep the nodes and (after the
  unbuild) the rig attributes and a \<^verbatim>\<open>reset_node\<close> that keeps the nodes: the rig's
  flag and every module's flag are false, every module's placement group is visible,
  no node that carried the marker is left, every node that was neither marked nor
  below a marked node is still in the scene, and these are all the nodes of the scene.
\<close>

theorem unbuild_resets:
  assumes pre_n: "keeps_nodes (run_scripts c ''pre_unbuild'')"
    and post_n: "keeps_nodes (run_scripts c ''post_unbuild'')"
    and post_r: "keeps_rig (run_scripts c ''post_unbuild'')"
    and reset: "\<And>n. keeps_nodes (reset_node c n)"
    and ub: "unbuild c s = Inr s'"
  shows "\<not> is_built s' RIG \<and>
         (\<exists>modules'. rig_modules c s' = Inr modules' \<and>
            (\<forall>m\<in>set modules'. \<not> is_built s' m \<and> visibility s' (placement_group s' m))) \<and>
         (\<forall>n\<in>set (build_nodes s). n \<notin> set (ls s')) \<and>
         (\<forall>n\<in>set (ls s). \<not> doomed s (build_nodes s) n \<longrightarrow> n \<in> set (ls s')) \<and>
         ls s' = filter (\<lambda>n. \<not> doomed s (build_nodes s) n) (ls s)"
proof -
  from ub obtain modules joints modules' s1 s2 s3 s4 where
    s1: "s1 = reset_pose c (run_scripts c ''pre_unbuild'' s)" and
    m1: "rig_modules c s1 = Inr modules" and
    s2: "s2 = fold (unbuild_module c) modules s1" and
    s3: "s3 = fold disconnect_joint joints s2" and
    s4: "s4 = delete (build_nodes s3) s3" and
    m4: "rig_modules c s4 = Inr modules'" and
    s': "s' = run_scripts c ''post_unbuild'' (reset_is_built RIG (fold reset_is_built modules' s4))"
    by (rule unbuild_steps)
  let ?s6 = "reset_is_built RIG (fold reset_is_built modules' s4)"
  have r': "rig_view s' = rig_view ?s6" using post_r by (simp add: s' keeps_rig_def)
  have n': "nodes_view s' = nodes_view ?s6" using post_n by (simp add: s' keeps_nodes_def)
  have n6: "nodes_view ?s6 = nodes_view s4"
    using reset_is_built_keeps fold_keeps_nodes [of reset_is_built, OF reset_is_built_keeps]
    by (simp add: keeps_nodes_def)
  have v2: "nodes_view s2 = nodes_view s1"
    unfolding s2 by (rule fold_keeps_nodes) (rule unbuild_module_keeps)
  have v3: "nodes_view s3 = nodes_view s2"
    unfolding s3 by (rule fold_keeps_nodes) (rule disconnect_joint_keeps)
  have r3: "rig_view s3 = rig_view s2"
    unfolding s3 by (rule fold_keeps_rig) (rule disconnect_joint_keeps)
  have r4: "rig_view s4 = rig_view s3" by (simp add: s4 delete_fields)
  \<comment> \<open>the flags\<close>
  have built6: "\<And>n. is_built ?s6 n = (n \<noteq> RIG \<and> n \<notin> set modules' \<and> is_built s4 n)"
    by (auto simp: reset_is_built_def fold_reset_is_built_fields)
  have built': "is_built s' = is_built ?s6" using r' by (simp add: rig_view_def)
  have 1: "\<not> is_built s' RIG" by (simp add: built' built6)
  \<comment> \<open>the modules after the unbuild are those found after the deletion\<close>
  have "rig_modules c s' = rig_modules c s4"
  proof (rule rig_modules_cong)
    show "ls s' = ls s4" "dag_parent s' = dag_parent s4"
      using n' n6 by (simp_all add: nodes_view_def)
    show "modules_group s' = modules_group s4" "module_type s' = module_type s4"
      "parent_module s' = parent_module s4"
      using r' by (simp_all add: rig_view_def reset_is_built_def fold_reset_is_built_fields)
  qed
  with m4 have m': "rig_modules c s' = Inr modules'" by simp
  \<comment> \<open>visibility\<close>
  have pg: "placement_group s' = placement_group s1"
    using r' r4 r3
    by (simp add: rig_view_def reset_is_built_def fold_reset_is_built_fields s2 fold_unbuild_module_fields)
  have vis: "visibility s' = visibility s2"
    using r' r4 r3 by (simp add: rig_view_def reset_is_built_def fold_reset_is_built_fields)
  have mg: "modules_group s4 = modules_group s1"
    using r4 r3 by (simp add: rig_view_def s2 fold_unbuild_module_fields)
  have "set modules' = set (listRelatives s4 (modules_group s4))" by (rule rig_modules_set [OF m4])
  also have "\<dots> \<subseteq> set (listRelatives s3 (modules_group s4))"
    unfolding s4 using listRelatives_delete_subset [of "build_nodes s3" s3] by simp
  also have "\<dots> = set (listRelatives s1 (modules_group s1))"
    using v3 v2 mg by (simp add: listRelatives_def nodes_view_def)
  also have "\<dots> = set modules" by (rule rig_modules_set [OF m1, symmetric])
  finally have sub: "set modules' \<subseteq> set modules" .
  have 2: "\<forall>m\<in>set modules'. \<not> is_built s' m \<and> visibility s' (placement_group s' m)"
  proof
    fix m assume m: "m \<in> set modules'"
    then have "\<not> is_built s' m" by (simp add: built' built6)
    moreover from m sub have "m \<in> set modules" by blast
    then have "visibility s' (placement_group s' m)"
      by (simp add: vis pg s2 fold_unbuild_module_visibility)
    ultimately show "\<not> is_built s' m \<and> visibility s' (placement_group s' m)" by simp
  qed
  \<comment> \<open>the nodes\<close>
  have lsq: "ls s' = filter (\<lambda>n. \<not> doomed s (build_nodes s) n) (ls s)"
    by (rule unbuild_ls(1) [OF pre_n post_n reset ub])
  have 3: "\<forall>n\<in>set (build_nodes s). n \<notin> set (ls s')" by (simp add: lsq doomed_def)
  have 4: "\<forall>n\<in>set (ls s). \<not> doomed s (build_nodes s) n \<longrightarrow> n \<in> set (ls s')" by (simp add: lsq)
  from m' 2 have e: "\<exists>modules'. rig_modules c s' = Inr modules' \<and>
            (\<forall>m\<in>set modules'. \<not> is_built s' m \<and> visibility s' (placement_group s' m))" by blast
  show ?thesis by (intro conjI) (rule 1 e 3 4 lsq)+
qed

text \<open>The built example rig: its unbuild completes; the two driver nodes are gone, the
  controllers and the joints are still there, every flag is reset, and the nodes are
  those of the rig before it was built.\<close>

theorem unbuild_resets_witness:
  "\<exists>s2 modules'. is_built built_rig RIG \<and> unbuild demo built_rig = Inr s2 \<and>
     \<not> is_built s2 RIG \<and> rig_modules demo s2 = Inr modules' \<and>
     list_all (\<lambda>m. \<not> is_built s2 m \<and> visibility s2 (placement_group s2 m)) modules' \<and>
     ''S_drv'' \<notin> set (ls s2) \<and> ''A_drv'' \<notin> set (ls s2) \<and>
     ''S_ctl'' \<in> set (ls s2) \<and> ''Aj'' \<in> set (ls s2) \<and>
     ls s2 = ls rig_scene"
proof -
  from unbuild_built_rig_ok obtain s2 where ub: "unbuild demo built_rig = Inr s2" ..
  note th = unbuild_resets [OF demo_keeps(1) demo_keeps(1) demo_keeps(2) demo_keeps(3) ub]
  from th have r: "\<not> is_built s2 RIG" by (rule conjunct1)
  from th have "\<exists>modules'. rig_modules demo s2 = Inr modules' \<and>
      (\<forall>m\<in>set modules'. \<not> is_built s2 m \<and> visibility s2 (placement_group s2 m))"
    by (rule conjunct1 [OF conjunct2])
  then obtain modules' where
    m: "rig_modules demo s2 = Inr modules'" and
    a: "\<forall>m\<in>set modules'. \<not> is_built s2 m \<and> visibility s2 (placement_group s2 m)" by blast
  from a have la: "list_all (\<lambda>m. \<not> is_built s2 m \<and> visibility s2 (placement_group s2 m)) modules'"
    by (simp add: list_all_iff)
  from th have del: "\<forall>n\<in>set (build_nodes built_rig). n \<notin> set (ls s2)"
    by (rule conjunct1 [OF conjunct2 [OF conjunct2]])
  from th have keep: "\<forall>n\<in>set (ls built_rig). \<not> doomed built_rig (build_nodes built_rig) n \<longrightarrow> n \<in> set (ls s2)"
    by (rule conjunct1 [OF conjunct2 [OF conjunct2 [OF conjunct2]]])
  from th have eq: "ls s2 = filter (\<lambda>n. \<not> doomed built_rig (build_nodes built_rig) n) (ls built_rig)"
    by (rule conjunct2 [OF conjunct2 [OF conjunct2 [OF conjunct2]]])
  from del have g1: "''S_drv'' \<notin> set (ls s2)" and g2: "''A_drv'' \<notin> set (ls s2)"
    by (simp_all add: built_rig_build_nodes)
  have nd1: "\<not> doomed built_rig (build_nodes built_rig) ''S_ctl''"
    by (simp add: doomed_def descendant_def built_rig_build_nodes built_rig_fields
          rig_scene_def empty_scene_def)
  have nd2: "\<not> doomed built_rig (build_nodes built_rig) ''Aj''"
    by (simp add: doomed_def descendant_def built_rig_build_nodes built_rig_fields
          rig_scene_def empty_scene_def)
  have in1: "''S_ctl'' \<in> set (ls built_rig)" and in2: "''Aj'' \<in> set (ls built_rig)"
    by (simp_all add: built_rig_fields rig_scene_def)
  from keep in1 nd1 have k1: "''S_ctl'' \<in> set (ls s2)" by blast
  from keep in2 nd2 have k2: "''Aj'' \<in> set (ls s2)" by blast
  have k3: "ls s2 = ls rig_scene"
    unfolding eq
    by (simp add: doomed_def descendant_def built_rig_build_nodes built_rig_fields
          rig_scene_def empty_scene_def)
  show ?thesis
    by (intro exI [of _ s2] exI [of _ modules'] conjI)
       (rule built_rig_fields(10) ub r m la g1 g2 k1 k2 k3)+
qed

text \<open>Two more unbuilds: of the rig whose build routines put the controllers under the
  groups they create, and of the example rig with a \<^verbatim>\<open>post_unbuild\<close> hook that
  raises the rig's flag.\<close>

lemma grouping_keeps:
  "keeps_nodes (run_scripts grouping phase)" "keeps_rig (run_scripts grouping phase)"
  "keeps_nodes (reset_node grouping n)" "keeps_rig (reset_node grouping n)"
  by (simp_all add: keeps_nodes_def keeps_rig_def nodes_view_def rig_view_def grouping_def demo_def)

lemma flagging_keeps:
  "keeps_nodes (run_scripts flagging phase)" "keeps_rig (run_scripts flagging ''pre_unbuild'')"
  "keeps_nodes (reset_node flagging n)" "keeps_rig (reset_node flagging n)"
  by (simp_all add: keeps_nodes_def keeps_rig_def nodes_view_def rig_view_def flagging_def demo_def)

lemma build_grouping_ok: "\<exists>s'. build grouping rig_scene = Inr s'"
  by (simp add: build_def build_pass_def rig_simps demo_simps grouping_def group_build_def Let_def)

lemma build_grouping: "build grouping rig_scene = Inr grouped_rig"
  using build_grouping_ok by (auto simp: grouped_rig_def)

lemma grouped_rig_fields:
  "ls grouped_rig = ls rig_scene @ [''S_grp'', ''A_grp'']"
  "is_build_node grouped_rig = {''S_grp'', ''A_grp''}"
  "dag_parent grouped_rig = (dag_parent rig_scene)
      (''S_grp'' \<mapsto> ''S'', ''S_ctl'' \<mapsto> ''S_grp'', ''A_grp'' \<mapsto> ''A'', ''A_ctl'' \<mapsto> ''A_grp'')"
  "modules_group grouped_rig = ''MODULES''"
  "skeleton_group grouped_rig = ''SKELETON''"
  "module_type grouped_rig = (\<lambda>n. ''limb'')"
  "parent_module grouped_rig = parent_module rig_scene"
  "is_built grouped_rig RIG"
  unfolding grouped_rig_def
  by (simp_all add: build_def build_pass_def rig_simps demo_simps grouping_def group_build_def Let_def RIG_def) auto

lemma grouped_rig_modules: "rig_modules grouping grouped_rig = Inr [''S'', ''A'']"
  by (simp add: rig_modules_def listRelatives_def sort_modules_def
       sort_modules_loop.simps sort_parent_module.simps
       grouped_rig_fields grouping_def demo_def rig_scene_def empty_scene_def)

lemma grouped_rig_skeleton: "skeleton grouped_rig = Inr [''Aj'', ''Sj'']"
  by (simp add: skeleton_def listRelatives_allDescendents_def descendant_def
       grouped_rig_fields rig_scene_def empty_scene_def)

lemma unbuild_grouped_rig:
  "\<exists>s2. unbuild grouping grouped_rig = Inr s2 \<and> ''S_ctl'' \<notin> set (ls s2) \<and> ''A_ctl'' \<notin> set (ls s2)"
proof -
  from unbuild_completes [OF grouping_keeps(1) grouping_keeps(2) grouping_keeps(3) grouping_keeps(4)
      grouped_rig_modules grouped_rig_skeleton]
  obtain s2 where ub: "unbuild grouping grouped_rig = Inr s2" ..
  have l: "ls s2 = filter (\<lambda>n. \<not> doomed grouped_rig (build_nodes grouped_rig) n) (ls grouped_rig)"
    by (rule unbuild_ls(1) [OF grouping_keeps(1) grouping_keeps(1) grouping_keeps(3) ub])
  have bn: "build_nodes grouped_rig = [''S_grp'', ''A_grp'']"
    by (simp add: build_nodes_def grouped_rig_fields rig_scene_def empty_scene_def)
  have d1: "doomed grouped_rig (build_nodes grouped_rig) ''S_ctl''"
    by (simp add: bn doomed_def descendant_def grouped_rig_fields rig_scene_def empty_scene_def)
  have d2: "doomed grouped_rig (build_nodes grouped_rig) ''A_ctl''"
    by (simp add: bn doomed_def descendant_def grouped_rig_fields rig_scene_def empty_scene_def)
  from d1 have 1: "''S_ctl'' \<notin> set (ls s2)" by (simp add: l)
  from d2 have 2: "''A_ctl'' \<notin> set (ls s2)" by (simp add: l)
  from ub 1 2 show ?thesis by blast
qed

lemma build_flagging: "build flagging rig_scene = Inr built_rig"
  by (simp add: built_rig_def build_def build_pass_def rig_simps demo_simps flagging_def Let_def)

lemma unbuild_flagging:
  "\<exists>s2. unbuild flagging built_rig = Inr s2 \<and> is_built s2 RIG"
proof -
  have m: "rig_modules flagging built_rig = Inr [''S'', ''A'']"
    by (simp add: rig_modules_def listRelatives_def sort_modules_def
         sort_modules_loop.simps sort_parent_module.simps
         built_rig_fields flagging_def demo_def rig_scene_def empty_scene_def)
  from unbuild_completes [OF flagging_keeps(1) flagging_keeps(2) flagging_keeps(3) flagging_keeps(4)
      m built_rig_skeleton]
  obtain s2 where ub: "unbuild flagging built_rig = Inr s2" ..
  from ub obtain modules' s4 where
    "s2 = run_scripts flagging ''post_unbuild'' (reset_is_built RIG (fold reset_is_built modules' s4))"
    by (rule unbuild_steps)
  then have "is_built s2 RIG" by (simp add: flagging_def)
  with ub show ?thesis by blast
qed

text \<open>
  C8 counterexample.  The controller \<open>S_ctl\<close> is an authoring node of the spine: it is
  in the scene before the build and is not marked by it.  The spine's build routine
  puts it under the group it creates; the group is marked, and \<^verbatim>\<open>unbuild\<close>, which
  deletes the marked nodes with everything below them, deletes the controller too.
  And with a \<^verbatim>\<open>post_unbuild\<close> hook that raises the rig's flag, the flag is set
  after \<^verbatim>\<open>unbuild\<close>.
\<close>

theorem unbuild_deletes_authoring_nodes:
  "(\<exists>s2. build grouping rig_scene = Inr grouped_rig \<and> is_built grouped_rig RIG \<and>
      ''S_ctl'' \<in> set (ls rig_scene) \<and> ''S_ctl'' \<in> set (controllers rig_scene ''S'') \<and>
      ''S_ctl'' \<notin> is_build_node grouped_rig \<and>
      unbuild grouping grouped_rig = Inr s2 \<and> ''S_ctl'' \<notin> set (ls s2)) \<and>
   (\<exists>s2. build flagging rig_scene = Inr built_rig \<and> is_built built_rig RIG \<and>
      unbuild flagging built_rig = Inr s2 \<and> is_built s2 RIG)"
proof (rule conjI)
  from unbuild_grouped_rig obtain s2 where
    ub: "unbuild grouping grouped_rig = Inr s2" and g: "''S_ctl'' \<notin> set (ls s2)" by blast
  have i: "''S_ctl'' \<in> set (ls rig_scene)" by (simp add: rig_scene_def)
  have c: "''S_ctl'' \<in> set (controllers rig_scene ''S'')" by (simp add: rig_scene_def)
  have u: "''S_ctl'' \<notin> is_build_node grouped_rig" by (simp add: grouped_rig_fields)
  show "\<exists>s2. build grouping rig_scene = Inr grouped_rig \<and> is_built grouped_rig RIG \<and>
      ''S_ctl'' \<in> set (ls rig_scene) \<and> ''S_ctl'' \<in> set (controllers rig_scene ''S'') \<and>
      ''S_ctl'' \<notin> is_build_node grouped_rig \<and>
      unbuild grouping grouped_rig = Inr s2 \<and> ''S_ctl'' \<notin> set (ls s2)"
    by (intro exI [of _ s2] conjI) (rule build_grouping grouped_rig_fields(8) i c u ub g)+
next
  from unbuild_flagging obtain s2 where
    ub: "unbuild flagging built_rig = Inr s2" and f: "is_built s2 RIG" by blast
  show "\<exists>s2. build flagging rig_scene = Inr built_rig \<and> is_built built_rig RIG \<and>
      unbuild flagging built_rig = Inr s2 \<and> is_built s2 RIG"
    by (intro exI [of _ s2] conjI) (rule build_flagging built_rig_fields(10) ub f)+
qed

text \<open>
  C7, the failing input: a rig that is not built, with no marked node and nothing under
  its skeleton group.  \<^verbatim>\<open>self.skeleton\<close> calls \<^verbatim>\<open>reversed\<close> on the \<^verbatim>\<open>None\<close> that
  \<^verbatim>\<open>listRelatives\<close> returns, and \<^verbatim>\<open>unbuild\<close> raises \<^verbatim>\<open>TypeError\<close>.
\<close>

theorem unbuild_empty_skeleton_raises:
  "\<not> is_built empty_scene RIG \<and> build_nodes empty_scene = [] \<and>
   rig_modules demo empty_scene = Inr [] \<and>
   listRelatives_allDescendents empty_scene (skeleton_group empty_scene) = [] \<and>
   unbuild demo empty_scene = Inl TypeError"
proof (intro conjI)
  show "\<not> is_built empty_scene RIG" by (simp add: empty_scene_def)
  show "build_nodes empty_scene = []" by (simp add: build_nodes_def empty_scene_def)
  show "rig_modules demo empty_scene = Inr []"
    by (simp add: rig_modules_def listRelatives_def sort_modules_def sort_modules_loop.simps
          empty_scene_def)
  show "listRelatives_allDescendents empty_scene (skeleton_group empty_scene) = []"
    by (simp add: listRelatives_allDescendents_def descendant_def empty_scene_def)
  show "unbuild demo empty_scene = Inl TypeError"
    by (simp add: unbuild_def reset_pose_def rig_modules_def listRelatives_def sort_modules_def
          sort_modules_loop.simps skeleton_def listRelatives_allDescendents_def descendant_def
          demo_def empty_scene_def Let_def)
qed

section \<open>Build, then unbuild\<close>

lemma hooked_keeps:
  "keeps_nodes (run_scripts hooked ''pre_unbuild'')" "keeps_rig (run_scripts hooked ''pre_unbuild'')"
  "keeps_nodes (run_scripts hooked ''post_unbuild'')"
  "keeps_nodes (reset_node hooked n)" "keeps_rig (reset_node hooked n)"
  by (simp_all add: keeps_nodes_def keeps_rig_def nodes_view_def rig_view_def hooked_def demo_def)

lemma switching_keeps:
  "keeps_nodes (run_scripts switching phase)" "keeps_rig (run_scripts switching phase)"
  "keeps_nodes (reset_node switching n)" "keeps_rig (reset_node switching n)"
  by (simp_all add: keeps_nodes_def keeps_rig_def nodes_view_def rig_view_def switching_def demo_def)

lemma build_hooked_ok: "\<exists>s'. build hooked rig_scene = Inr s'"
  by (simp add: build_def build_pass_def rig_simps demo_simps hooked_def Let_def)

lemma build_hooked: "build hooked rig_scene = Inr hooked_rig"
  using build_hooked_ok by (auto simp: hooked_rig_def)

lemma hooked_rig_fields:
  "ls hooked_rig = ls rig_scene @ [''S_drv'', ''A_drv'', ''hook_node'']"
  "is_build_node hooked_rig = {''S_drv'', ''A_drv''}"
  "dag_parent hooked_rig = dag_parent rig_scene"
  "modules_group hooked_rig = ''MODULES''"
  "skeleton_group hooked_rig = ''SKELETON''"
  "module_type hooked_rig = (\<lambda>n. ''limb'')"
  "parent_module hooked_rig = parent_module rig_scene"
  unfolding hooked_rig_def
  by (simp_all add: build_def build_pass_def rig_simps demo_simps hooked_def Let_def) auto

lemma build_switching_ok: "\<exists>s'. build switching rig_scene = Inr s'"
  by (simp add: build_def build_pass_def rig_simps demo_simps switching_def Let_def)

lemma build_switching: "build switching rig_scene = Inr switching_rig"
  using build_switching_ok by (auto simp: switching_rig_def)

lemma switching_rig_fields:
  "ls switching_rig = ls rig_scene @ [''S_drv'', ''A_drv'', ''A_ctl_space'']"
  "is_build_node switching_rig = {''S_drv'', ''A_drv''}"
  "dag_parent switching_rig = dag_parent rig_scene"
  "modules_group switching_rig = ''MODULES''"
  "skeleton_group switching_rig = ''SKELETON''"
  "module_type switching_rig = (\<lambda>n. ''limb'')"
  "parent_module switching_rig = parent_module rig_scene"
  unfolding switching_rig_def
  by (simp_all add: build_def build_pass_def rig_simps demo_simps switching_def Let_def) auto

lemma hooked_rig_modules: "rig_modules hooked hooked_rig = Inr [''S'', ''A'']"
  by (simp add: rig_modules_def listRelatives_def sort_modules_def
       sort_modules_loop.simps sort_parent_module.simps
       hooked_rig_fields hooked_def demo_def rig_scene_def empty_scene_def)

lemma hooked_rig_skeleton: "skeleton hooked_rig = Inr [''Aj'', ''Sj'']"
  by (simp add: skeleton_def listRelatives_allDescendents_def descendant_def
       hooked_rig_fields rig_scene_def empty_scene_def)

lemma switching_rig_modules: "rig_modules switching switching_rig = Inr [''S'', ''A'']"
  by (simp add: rig_modules_def listRelatives_def sort_modules_def
       sort_modules_loop.simps sort_parent_module.simps
       switching_rig_fields switching_def demo_def rig_scene_def empty_scene_def)

lemma switching_rig_skeleton: "skeleton switching_rig = Inr [''Aj'', ''Sj'']"
  by (simp add: skeleton_def listRelatives_allDescendents_def descendant_def
       switching_rig_fields rig_scene_def empty_scene_def)

lemma build_hidden_ok: "\<exists>s'. build demo hidden_scene = Inr s'"
  by (simp add: build_def build_pass_def rig_simps demo_simps hidden_scene_def Let_def)

lemma build_hidden: "build demo hidden_scene = Inr hidden_rig"
  using build_hidden_ok by (auto simp: hidden_rig_def)

lemma hidden_rig_fields:
  "ls hidden_rig = ls rig_scene @ [''S_drv'', ''A_drv'']"
  "is_build_node hidden_rig = {''S_drv'', ''A_drv''}"
  "dag_parent hidden_rig = dag_parent rig_scene"
  "modules_group hidden_rig = ''MODULES''"
  "skeleton_group hidden_rig = ''SKELETON''"
  "module_type hidden_rig = (\<lambda>n. ''limb'')"
  "parent_module hidden_rig = parent_module rig_scene"
  "placement_group hidden_rig = placement_group rig_scene"
  unfolding hidden_rig_def
  by (simp_all add: build_def build_pass_def rig_simps demo_simps hidden_scene_def Let_def) auto

lemma hidden_rig_modules: "rig_modules demo hidden_rig = Inr [''S'', ''A'']"
  by (simp add: rig_modules_def listRelatives_def sort_modules_def
       sort_modules_loop.simps sort_parent_module.simps
       hidden_rig_fields demo_def rig_scene_def empty_scene_def)

lemma hidden_rig_skeleton: "skeleton hidden_rig = Inr [''Aj'', ''Sj'']"
  by (simp add: skeleton_def listRelatives_allDescendents_def descendant_def
       hidden_rig_fields rig_scene_def empty_scene_def)

lemma fold_reset_is_built_incoming: "incoming (fold reset_is_built ms s) = incoming s"
  by (induction ms arbitrary: s) (auto simp: reset_is_built_def)

text \<open>The unbuilds of the example rigs built with a \<^verbatim>\<open>post_build\<close> hook that makes
  a node, with a space-switching builder that makes a node, and from the scene with a
  hidden placement group and driven joints.\<close>

lemma unbuild_hooked_rig:
  "\<exists>s2. unbuild hooked hooked_rig = Inr s2 \<and> ''hook_node'' \<in> set (ls s2)"
proof -
  from unbuild_completes [OF hooked_keeps(1) hooked_keeps(2) hooked_keeps(4) hooked_keeps(5)
      hooked_rig_modules hooked_rig_skeleton]
  obtain s2 where ub: "unbuild hooked hooked_rig = Inr s2" ..
  have l: "ls s2 = filter (\<lambda>n. \<not> doomed hooked_rig (build_nodes hooked_rig) n) (ls hooked_rig)"
    by (rule unbuild_ls(1) [OF hooked_keeps(1) hooked_keeps(3) hooked_keeps(4) ub])
  have bn: "build_nodes hooked_rig = [''S_drv'', ''A_drv'']"
    by (simp add: build_nodes_def hooked_rig_fields rig_scene_def empty_scene_def)
  have nd: "\<not> doomed hooked_rig (build_nodes hooked_rig) ''hook_node''"
    by (simp add: bn doomed_def descendant_def hooked_rig_fields rig_scene_def empty_scene_def)
  have "''hook_node'' \<in> set (ls hooked_rig)" by (simp add: hooked_rig_fields)
  with nd have "''hook_node'' \<in> set (ls s2)" by (simp add: l)
  with ub show ?thesis by blast
qed

lemma unbuild_switching_rig:
  "\<exists>s2. unbuild switching switching_rig = Inr s2 \<and> ''A_ctl_space'' \<in> set (ls s2)"
proof -
  from unbuild_completes [OF switching_keeps(1) switching_keeps(2) switching_keeps(3) switching_keeps(4)
      switching_rig_modules switching_rig_skeleton]
  obtain s2 where ub: "unbuild switching switching_rig = Inr s2" ..
  have l: "ls s2 = filter (\<lambda>n. \<not> doomed switching_rig (build_nodes switching_rig) n) (ls switching_rig)"
    by (rule unbuild_ls(1) [OF switching_keeps(1) switching_keeps(1) switching_keeps(3) ub])
  have bn: "build_nodes switching_rig = [''S_drv'', ''A_drv'']"
    by (simp add: build_nodes_def switching_rig_fields rig_scene_def empty_scene_def)
  have nd: "\<not> doomed switching_rig (build_nodes switching_rig) ''A_ctl_space''"
    by (simp add: bn doomed_def descendant_def switching_rig_fields rig_scene_def empty_scene_def)
  have "''A_ctl_space'' \<in> set (ls switching_rig)" by (simp add: switching_rig_fields)
  with nd have "''A_ctl_space'' \<in> set (ls s2)" by (simp add: l)
  with ub show ?thesis by blast
qed

lemma unbuild_hidden_rig:
  "\<exists>s2. unbuild demo hidden_rig = Inr s2 \<and> visibility s2 ''Sp'' \<and>
     incoming s2 (''Sj'', ''.translate'') = None"
proof -
  from unbuild_completes [OF demo_keeps(1) demo_keeps(2) demo_keeps(3) demo_resets_rig
      hidden_rig_modules hidden_rig_skeleton]
  obtain s2 where ub: "unbuild demo hidden_rig = Inr s2" ..
  from ub obtain modules joints modules' sa sb sc sd where
    sa: "sa = reset_pose demo (run_scripts demo ''pre_unbuild'' hidden_rig)" and
    ma: "rig_modules demo sa = Inr modules" and
    sb: "sb = fold (unbuild_module demo) modules sa" and
    sk: "skeleton sb = Inr joints" and
    sc: "sc = fold disconnect_joint joints sb" and
    sd: "sd = delete (build_nodes sc) sc" and
    s2: "s2 = run_scripts demo ''post_unbuild'' (reset_is_built RIG (fold reset_is_built modules' sd))"
    by (rule unbuild_steps)
  have a: "sa = hidden_rig" by (simp add: sa reset_pose_def demo_def fold_const)
  from ma have ms: "modules = [''S'', ''A'']" by (simp add: a hidden_rig_modules)
  have nb: "nodes_view sb = nodes_view hidden_rig"
    unfolding sb a by (rule fold_keeps_nodes) (rule unbuild_module_keeps)
  have "skeleton sb = skeleton hidden_rig"
    by (rule skeleton_cong [OF nb]) (simp add: sb a fold_unbuild_module_fields)
  with sk have js: "joints = [''Aj'', ''Sj'']" by (simp add: hidden_rig_skeleton)
  have "visibility sb ''Sp'' = (visibility sa ''Sp'' \<or> ''Sp'' \<in> placement_group sa ` set modules)"
    unfolding sb by (rule fold_unbuild_module_visibility)
  then have vb: "visibility sb ''Sp''"
    by (simp add: a ms hidden_rig_fields rig_scene_def)
  have "rig_view sc = rig_view sb"
    unfolding sc by (rule fold_keeps_rig) (rule disconnect_joint_keeps)
  then have vc: "visibility sc = visibility sb" by (simp add: rig_view_def)
  have v2: "visibility s2 = visibility sc"
    by (simp add: s2 demo_def reset_is_built_def fold_reset_is_built_fields sd delete_def)
  have ic: "incoming sc (''Sj'', ''.translate'') = None"
    by (simp add: sc js disconnect_joint_def)
  have i2: "incoming s2 = incoming sc"
    by (simp add: s2 demo_def reset_is_built_def fold_reset_is_built_incoming sd delete_def)
  from vb vc v2 have 1: "visibility s2 ''Sp''" by simp
  from ic i2 have 2: "incoming s2 (''Sj'', ''.translate'') = None" by simp
  from ub 1 2 show ?thesis by blast
qed

text \<open>
  C1 counterexample.  The snapshot that defines the ephemeral set is taken after the
  per-module pass and before the parent-space pass and the \<^verbatim>\<open>post_build\<close> hooks.
  In the first two rigs a node made by a \<^verbatim>\<open>post_build\<close> hook, and a node made
  while the parent space of a controller is set up, are not marked and are still in the
  scene after \<^verbatim>\<open>unbuild\<close>.  In the third a build routine has put an authoring
  controller under a group it made, and the controller is gone after \<^verbatim>\<open>unbuild\<close>.
  In each of them the node set is not the one before the build.  In the fourth the
  spine's placement group was hidden and the joints were driven before the build:
  after \<^verbatim>\<open>unbuild\<close> the group is visible and the connection is gone, two
  differences that are not in the controllers' blobs.
\<close>

theorem build_unbuild_leaves_nodes:
  "(\<exists>s2. build hooked rig_scene = Inr hooked_rig \<and> unbuild hooked hooked_rig = Inr s2 \<and>
      ''hook_node'' \<notin> set (ls rig_scene) \<and> ''hook_node'' \<notin> is_build_node hooked_rig \<and>
      ''hook_node'' \<in> set (ls s2) \<and> set (ls s2) \<noteq> set (ls rig_scene)) \<and>
   (\<exists>s2. build switching rig_scene = Inr switching_rig \<and> unbuild switching switching_rig = Inr s2 \<and>
      ''A_ctl_space'' \<notin> set (ls rig_scene) \<and> ''A_ctl_space'' \<notin> is_build_node switching_rig \<and>
      ''A_ctl_space'' \<in> set (ls s2) \<and> set (ls s2) \<noteq> set (ls rig_scene)) \<and>
   (\<exists>s2. build grouping rig_scene = Inr grouped_rig \<and> unbuild grouping grouped_rig = Inr s2 \<and>
      ''S_ctl'' \<in> set (ls rig_scene) \<and> ''S_ctl'' \<notin> set (ls s2) \<and>
      set (ls s2) \<noteq> set (ls rig_scene)) \<and>
   (\<exists>s2. build demo hidden_scene = Inr hidden_rig \<and> unbuild demo hidden_rig = Inr s2 \<and>
      placement_group hidden_scene ''S'' = ''Sp'' \<and>
      \<not> visibility hidden_scene ''Sp'' \<and> visibility s2 ''Sp'' \<and>
      ''Sj'' \<in> set (deform_joints hidden_scene ''S'') \<and>
      incoming hidden_scene (''Sj'', ''.translate'') = Some ''driver.output'' \<and>
      incoming s2 (''Sj'', ''.translate'') = None)"
proof (intro conjI)
  from unbuild_hooked_rig obtain s2 where
    ub: "unbuild hooked hooked_rig = Inr s2" and i: "''hook_node'' \<in> set (ls s2)" by blast
  have o: "''hook_node'' \<notin> set (ls rig_scene)" by (simp add: rig_scene_def empty_scene_def)
  have u: "''hook_node'' \<notin> is_build_node hooked_rig" by (simp add: hooked_rig_fields)
  from i o have ne: "set (ls s2) \<noteq> set (ls rig_scene)" by blast
  show "\<exists>s2. build hooked rig_scene = Inr hooked_rig \<and> unbuild hooked hooked_rig = Inr s2 \<and>
      ''hook_node'' \<notin> set (ls rig_scene) \<and> ''hook_node'' \<notin> is_build_node hooked_rig \<and>
      ''hook_node'' \<in> set (ls s2) \<and> set (ls s2) \<noteq> set (ls rig_scene)"
    by (intro exI [of _ s2] conjI) (rule build_hooked ub o u i ne)+
next
  from unbuild_switching_rig obtain s2 where
    ub: "unbuild switching switching_rig = Inr s2" and i: "''A_ctl_space'' \<in> set (ls s2)" by blast
  have o: "''A_ctl_space'' \<notin> set (ls rig_scene)" by (simp add: rig_scene_def empty_scene_def)
  have u: "''A_ctl_space'' \<notin> is_build_node switching_rig" by (simp add: switching_rig_fields)
  from i o have ne: "set (ls s2) \<noteq> set (ls rig_scene)" by blast
  show "\<exists>s2. build switching rig_scene = Inr switching_rig \<and> unbuild switching switching_rig = Inr s2 \<and>
      ''A_ctl_space'' \<notin> set (ls rig_scene) \<and> ''A_ctl_space'' \<notin> is_build_node switching_rig \<and>
      ''A_ctl_space'' \<in> set (ls s2) \<and> set (ls s2) \<noteq> set (ls rig_scene)"
    by (intro exI [of _ s2] conjI) (rule build_switching ub o u i ne)+
next
  from unbuild_grouped_rig obtain s2 where
    ub: "unbuild grouping grouped_rig = Inr s2" and g: "''S_ctl'' \<notin> set (ls s2)" by blast
  have i: "''S_ctl'' \<in> set (ls rig_scene)" by (simp add: rig_scene_def)
  from i g have ne: "set (ls s2) \<noteq> set (ls rig_scene)" by blast
  show "\<exists>s2. build grouping rig_scene = Inr grouped_rig \<and> unbuild grouping grouped_rig = Inr s2 \<and>
      ''S_ctl'' \<in> set (ls rig_scene) \<and> ''S_ctl'' \<notin> set (ls s2) \<and>
      set (ls s2) \<noteq> set (ls rig_scene)"
    by (intro exI [of _ s2] conjI) (rule build_grouping ub i g ne)+
next
  from unbuild_hidden_rig obtain s2 where
    ub: "unbuild demo hidden_rig = Inr s2" and v: "visibility s2 ''Sp''" and
    c: "incoming s2 (''Sj'', ''.translate'') = None" by blast
  have p: "placement_group hidden_scene ''S'' = ''Sp''" by (simp add: hidden_scene_def rig_scene_def)
  have h: "\<not> visibility hidden_scene ''Sp''" by (simp add: hidden_scene_def)
  have j: "''Sj'' \<in> set (deform_joints hidden_scene ''S'')" by (simp add: hidden_scene_def rig_scene_def)
  have d: "incoming hidden_scene (''Sj'', ''.translate'') = Some ''driver.output''"
    by (simp add: hidden_scene_def)
  show "\<exists>s2. build demo hidden_scene = Inr hidden_rig \<and> unbuild demo hidden_rig = Inr s2 \<and>
      placement_group hidden_scene ''S'' = ''Sp'' \<and>
      \<not> visibility hidden_scene ''Sp'' \<and> visibility s2 ''Sp'' \<and>
      ''Sj'' \<in> set (deform_joints hidden_scene ''S'') \<and>
      incoming hidden_scene (''Sj'', ''.translate'') = Some ''driver.output'' \<and>
      incoming s2 (''Sj'', ''.translate'') = None"
    by (intro exI [of _ s2] conjI) (rule build_hidden ub p h v j d c)+
qed

text \<open>
  C1, as the code has it: take a scene with no marked node in which the parent of every
  node is a node of the scene, hooks, \<^verbatim>\<open>reset_node\<close>, attribute-state and
  parent-space services that keep the nodes, and module build routines that only add
  nodes.  If \<^verbatim>\<open>build\<close> and then \<^verbatim>\<open>unbuild\<close> complete, the scene has exactly the
  nodes it had before the build, none of them is marked, and each of them is under the
  parent it had.
\<close>

theorem build_unbuild_restores_nodes:
  assumes hooks: "\<And>phase. keeps_nodes (run_scripts c phase)"
    and reset: "\<And>n. keeps_nodes (reset_node c n)"
    and sas: "\<And>ctl st. keeps_nodes (set_attributes_state c ctl st)"
    and css: "\<And>ctl p t. keeps_nodes (create_space_switching c ctl p t)"
    and mb: "\<And>m. adds_only (module_build c m)"
    and closed: "closed_hierarchy s"
    and unmarked: "build_nodes s = []"
    and b: "build c s = Inr s1"
    and ub: "unbuild c s1 = Inr s2"
  shows "set (ls s2) = set (ls s) \<and> build_nodes s2 = [] \<and>
         (\<forall>n\<in>set (ls s). dag_parent s2 n = dag_parent s n)"
proof -
  note sh = build_shape [OF hooks hooks sas css mb b]
  have ls2: "ls s2 = filter (\<lambda>n. \<not> doomed s1 (build_nodes s1) n) (ls s1)"
    and ibn2: "is_build_node s2 = {n \<in> is_build_node s1. \<not> doomed s1 (build_nodes s1) n}"
    and par2: "dag_parent s2 = dag_parent s1"
    by (rule unbuild_ls [OF hooks hooks reset ub])+
  from unmarked have um: "\<And>n. n \<in> set (ls s) \<Longrightarrow> n \<notin> is_build_node s"
    by (auto simp: build_nodes_def filter_empty_conv)
  have bn1: "set (build_nodes s1) = set (ls s1) - set (ls s)"
    using sh(1) um by (auto simp: build_nodes_def sh(3))
  have par: "\<forall>n\<in>set (ls s). \<forall>p. dag_parent s1 n = Some p \<longrightarrow> p \<in> set (ls s)"
    using closed sh(2) by (simp add: closed_hierarchy_def)
  have old: "\<And>n. n \<in> set (ls s) \<Longrightarrow> \<not> doomed s1 (build_nodes s1) n"
  proof
    fix n assume n: "n \<in> set (ls s)" and d: "doomed s1 (build_nodes s1) n"
    from d n bn1 obtain a where a: "a \<in> set (build_nodes s1)" and de: "descendant s1 a n"
      by (auto simp: doomed_def)
    from de have "below (length (ls s1)) (dag_parent s1) a n" by (simp add: descendant_def)
    then have "a \<in> set (ls s)" using n by (rule below_closed [OF par])
    with a bn1 show False by simp
  qed
  have new: "\<And>n. n \<in> set (ls s1) \<Longrightarrow> n \<notin> set (ls s) \<Longrightarrow> doomed s1 (build_nodes s1) n"
    using bn1 by (simp add: doomed_def)
  have 1: "set (ls s2) = set (ls s)"
    using old new sh(1) by (auto simp: ls2)
  have "\<And>n. n \<in> set (ls s2) \<Longrightarrow> n \<notin> is_build_node s2"
  proof
    fix n assume n: "n \<in> set (ls s2)" and m: "n \<in> is_build_node s2"
    from n 1 have "n \<in> set (ls s)" by simp
    moreover from m ibn2 have "n \<in> is_build_node s1" by simp
    ultimately show False using um sh(3) by auto
  qed
  then have 2: "build_nodes s2 = []" by (simp add: build_nodes_def filter_empty_conv)
  have 3: "\<forall>n\<in>set (ls s). dag_parent s2 n = dag_parent s n" using sh(2) by (simp add: par2)
  show ?thesis by (intro conjI) (rule 1 2 3)+
qed

text \<open>The example rig: the build adds the two driver nodes, the unbuild takes them
  away again.\<close>

theorem build_unbuild_restores_nodes_witness:
  "\<exists>s2. (\<forall>phase. keeps_nodes (run_scripts demo phase)) \<and> (\<forall>m. adds_only (module_build demo m)) \<and>
     closed_hierarchy rig_scene \<and> build_nodes rig_scene = [] \<and>
     build demo rig_scene = Inr built_rig \<and> unbuild demo built_rig = Inr s2 \<and>
     set (ls built_rig) \<noteq> set (ls rig_scene) \<and>
     set (ls s2) = set (ls rig_scene) \<and> build_nodes s2 = [] \<and>
     dag_parent s2 ''A_ctl'' = Some ''A'' \<and> dag_parent s2 ''Aj'' = Some ''Sj''"
proof -
  from unbuild_built_rig_ok obtain s2 where ub: "unbuild demo built_rig = Inr s2" ..
  note th = build_unbuild_restores_nodes [OF demo_keeps(1) demo_keeps(3) demo_keeps(4) demo_keeps(5)
      demo_adds_only rig_scene_closed rig_scene_unmarked build_rig_scene ub]
  from th have 1: "set (ls s2) = set (ls rig_scene)" by (rule conjunct1)
  from th have 2: "build_nodes s2 = []" by (rule conjunct1 [OF conjunct2])
  from th have 3: "\<forall>n\<in>set (ls rig_scene). dag_parent s2 n = dag_parent rig_scene n"
    by (rule conjunct2 [OF conjunct2])
  have "''A_ctl'' \<in> set (ls rig_scene)" "''Aj'' \<in> set (ls rig_scene)" by (simp_all add: rig_scene_def)
  with 3 have "dag_parent s2 ''A_ctl'' = dag_parent rig_scene ''A_ctl''"
    "dag_parent s2 ''Aj'' = dag_parent rig_scene ''Aj''" by blast+
  then have 4: "dag_parent s2 ''A_ctl'' = Some ''A''" and 5: "dag_parent s2 ''Aj'' = Some ''Sj''"
    by (simp_all add: rig_scene_def)
  have "''S_drv'' \<in> set (ls built_rig)" "''S_drv'' \<notin> set (ls rig_scene)"
    by (simp_all add: built_rig_fields rig_scene_def empty_scene_def)
  then have ne: "set (ls built_rig) \<noteq> set (ls rig_scene)" by blast
  have h: "\<forall>phase. keeps_nodes (run_scripts demo phase)" using demo_keeps(1) by blast
  have a: "\<forall>m. adds_only (module_build demo m)" using demo_adds_only by blast
  show ?thesis
    by (intro exI [of _ s2] conjI)
       (rule h a rig_scene_closed rig_scene_unmarked build_rig_scene ub ne 1 2 4 5)+
qed

end
